theory Spec2Isabelle
  imports Complex_Main "HOL-Library.Word"
begin

section \<open>Scalar types of the C++ sources\<close>

text \<open>
  The sources compute with \<^verbatim>\<open>float\<close>, \<^verbatim>\<open>int\<close>, \<^verbatim>\<open>uint\<close> and \<^verbatim>\<open>size_t\<close>.

  A \<^verbatim>\<open>float\<close> is modelled as a real number or one of the three IEEE special values.
  The operations below follow IEEE 754 on the special values (an invalid operation gives
  NaN, every ordered comparison with NaN is false); on finite values they are exact:
  rounding, overflow to infinity and the sign of zero are not modelled. Every divisor
  the sources use is a square root or a converted row count, so a zero divisor is
  \<open>+0\<close>.
\<close>

datatype float = Fin real | PInf | NInf | NaN

fun is_Fin :: "float \<Rightarrow> bool" where
  "is_Fin (Fin x) = True"
| "is_Fin f = False"

fun fneg :: "float \<Rightarrow> float" where
  "fneg (Fin x) = Fin (- x)"
| "fneg PInf = NInf"
| "fneg NInf = PInf"
| "fneg NaN = NaN"

fun fadd :: "float \<Rightarrow> float \<Rightarrow> float" where
  "fadd (Fin x) (Fin y) = Fin (x + y)"
| "fadd NaN g = NaN"
| "fadd f NaN = NaN"
| "fadd PInf NInf = NaN"
| "fadd NInf PInf = NaN"
| "fadd PInf g = PInf"
| "fadd f PInf = PInf"
| "fadd NInf g = NInf"
| "fadd f NInf = NInf"

definition fsub :: "float \<Rightarrow> float \<Rightarrow> float" where
  "fsub f g = fadd f (fneg g)"

fun fmul :: "float \<Rightarrow> float \<Rightarrow> float" where
  "fmul (Fin x) (Fin y) = Fin (x * y)"
| "fmul NaN g = NaN"
| "fmul f NaN = NaN"
| "fmul (Fin x) PInf = (if x = 0 then NaN else if 0 < x then PInf else NInf)"
| "fmul (Fin x) NInf = (if x = 0 then NaN else if 0 < x then NInf else PInf)"
| "fmul PInf (Fin y) = (if y = 0 then NaN else if 0 < y then PInf else NInf)"
| "fmul NInf (Fin y) = (if y = 0 then NaN else if 0 < y then NInf else PInf)"
| "fmul PInf PInf = PInf"
| "fmul NInf NInf = PInf"
| "fmul PInf NInf = NInf"
| "fmul NInf PInf = NInf"

fun fdiv :: "float \<Rightarrow> float \<Rightarrow> float" where
  "fdiv (Fin x) (Fin y) =
     (if y = 0 then (if x = 0 then NaN else if 0 < x then PInf else NInf)
      else Fin (x / y))"
| "fdiv NaN g = NaN"
| "fdiv f NaN = NaN"
| "fdiv (Fin x) PInf = Fin 0"
| "fdiv (Fin x) NInf = Fin 0"
| "fdiv PInf (Fin y) = (if 0 \<le> y then PInf else NInf)"
| "fdiv NInf (Fin y) = (if 0 \<le> y then NInf else PInf)"
| "fdiv PInf g = NaN"
| "fdiv NInf g = NaN"

text \<open>\<^verbatim>\<open>pow(x, 2.0)\<close> and \<^verbatim>\<open>sqrt(x)\<close> of the C library.\<close>

fun fpow2 :: "float \<Rightarrow> float" where
  "fpow2 (Fin x) = Fin (x\<^sup>2)"
| "fpow2 PInf = PInf"
| "fpow2 NInf = PInf"
| "fpow2 NaN = NaN"

fun fsqrt :: "float \<Rightarrow> float" where
  "fsqrt (Fin x) = (if x < 0 then NaN else Fin (sqrt x))"
| "fsqrt PInf = PInf"
| "fsqrt NInf = NaN"
| "fsqrt NaN = NaN"

text \<open>The comparisons \<^verbatim>\<open><\<close> and \<^verbatim>\<open><=\<close> on floats.\<close>

fun fless :: "float \<Rightarrow> float \<Rightarrow> bool" where
  "fless (Fin x) (Fin y) = (x < y)"
| "fless NaN g = False"
| "fless f NaN = False"
| "fless f NInf = False"
| "fless PInf g = False"
| "fless NInf g = True"
| "fless f PInf = True"

fun fle :: "float \<Rightarrow> float \<Rightarrow> bool" where
  "fle (Fin x) (Fin y) = (x \<le> y)"
| "fle NaN g = False"
| "fle f NaN = False"
| "fle NInf g = True"
| "fle f PInf = True"
| "fle f NInf = False"
| "fle PInf g = False"

text \<open>\<^verbatim>\<open>static_cast<float>(k)\<close> of a non-negative count.\<close>

definition float_of_nat :: "nat \<Rightarrow> float" where
  "float_of_nat k = Fin (real k)"

text \<open>
  An \<^verbatim>\<open>int\<close> and a \<^verbatim>\<open>uint\<close> are 32-bit words: \<open>sint\<close> reads an \<^verbatim>\<open>int\<close>, and
  \<open>unat\<close> is its value after the conversion to \<^verbatim>\<open>unsigned\<close> that C++ applies when an
  \<^verbatim>\<open>int\<close> meets a \<^verbatim>\<open>uint\<close> in a comparison. A \<^verbatim>\<open>size_t\<close> has 64 bits; container
  sizes and loop counters are natural numbers.
\<close>

type_synonym cint = "32 word"
type_synonym uint = "32 word"

text \<open>The conversion of an \<^verbatim>\<open>int\<close> to \<^verbatim>\<open>size_t\<close>: a negative value wraps around.\<close>

definition size_t_of_int :: "cint \<Rightarrow> nat" where
  "size_t_of_int k = nat (sint k mod 2 ^ 64)"

text \<open>
  A \<^verbatim>\<open>cv::Mat\<close>: its row and column counts and the element read by \<^verbatim>\<open>at(m, n)\<close>.
  \<^verbatim>\<open>empty()\<close> holds when the matrix has no element.
\<close>

record 'a mat =
  rows :: nat
  cols :: nat
  entry :: "nat \<Rightarrow> nat \<Rightarrow> 'a"

definition mat_empty :: "'a mat \<Rightarrow> bool" where
  "mat_empty m = (rows m = 0 \<or> cols m = 0)"

type_synonym image = "8 word mat"

text \<open>
  What the sources take from outside, as parameters of the model:
  \<^item> \<open>rand_val env seed k\<close>: the value \<^verbatim>\<open>static_cast<float>(rand())/rand_max\<close> that the
    call of \<^verbatim>\<open>computeRandomVector\<close> with the seed offset \<open>seed\<close> stores at position \<open>k\<close>
    (the source ignores its seed argument and reads the state of \<^verbatim>\<open>rand()\<close>; the model
    names the call by the offset, which is different at every call);
  \<^item> \<open>solve env A b n\<close>: component \<open>n\<close> of \<^verbatim>\<open>A.colPivHouseholderQr().solve(b)\<close>;
  \<^item> \<open>shuffled env k i\<close>: \<^verbatim>\<open>indices[i]\<close> after \<^verbatim>\<open>std::iota\<close> and
    \<^verbatim>\<open>std::random_shuffle\<close> on \<open>k\<close> indices;
  \<^item> \<open>sift env img\<close>: the descriptor matrix that \<^verbatim>\<open>detectAndCompute\<close> returns.
\<close>

record env =
  rand_val :: "nat \<Rightarrow> nat \<Rightarrow> float"
  solve :: "float list list \<Rightarrow> float list \<Rightarrow> nat \<Rightarrow> float"
  shuffled :: "nat \<Rightarrow> nat \<Rightarrow> nat"
  sift :: "image \<Rightarrow> float mat"

text \<open>
  The only exception of the sources: \<^verbatim>\<open>std::vector<float> h(size)\<close> with a negative
  \<^verbatim>\<open>size\<close>, which converts to a \<^verbatim>\<open>size_t\<close> beyond \<^verbatim>\<open>max_size()\<close>.
\<close>

datatype error = LengthError

section \<open>hash.cc: the similarity of two hashes\<close>

text \<open>
  \<^verbatim>\<open>Hash::calcSimilarity\<close>: the sentinel \<open>-1.0\<close> when the sizes differ, else the loop
  \<^verbatim>\<open>sim += pow(hash_a[i] - hash_b[i], 2.0)\<close> over the positions and the square root.
\<close>

definition calcSimilarity :: "float list \<Rightarrow> float list \<Rightarrow> float" where
  "calcSimilarity hash_a hash_b =
     (if length hash_a \<noteq> length hash_b then Fin (- 1)
      else fsqrt (foldl (\<lambda>sim i. fadd sim (fpow2 (fsub (hash_a ! i) (hash_b ! i))))
                    (Fin 0) [0..<length hash_a]))"

section \<open>hash.cc: the projection basis\<close>

text \<open>
  The state of a \<^verbatim>\<open>Hash\<close> object, with its members \<^verbatim>\<open>initialized_\<close>, \<^verbatim>\<open>num_proj_\<close>,
  \<^verbatim>\<open>max_desc_\<close> and \<^verbatim>\<open>r_\<close> (here \<open>basis\<close>), and its constructor.
\<close>

record hash_state =
  initialized :: bool
  num_proj :: cint
  max_desc :: cint
  basis :: "float list list"

definition Hash :: "cint \<Rightarrow> cint \<Rightarrow> hash_state" where
  "Hash np md = \<lparr>initialized = False, num_proj = np, max_desc = md, basis = []\<rparr>"

definition computeRandomVector :: "env \<Rightarrow> int \<Rightarrow> nat \<Rightarrow> error + float list" where
  "computeRandomVector env sz seed =
     (if sz < 0 then Inl LengthError
      else Inr (map (rand_val env seed) [0..<nat sz]))"

definition unitVector :: "float list \<Rightarrow> float list" where
  "unitVector x =
     (let x_norm = fsqrt (foldl (\<lambda>sum i. fadd sum (fpow2 (x ! i))) (Fin 0) [0..<length x])
      in map (\<lambda>i. fdiv (x ! i) x_norm) [0..<length x])"

text \<open>
  The loop of \<^verbatim>\<open>initProjections\<close> over \<open>i = 1, 2, ...\<close>, with \<open>rs\<close> the vectors
  accepted so far (the member \<^verbatim>\<open>r_\<close>). \<^verbatim>\<open>max_desc_ - i\<close> is computed on 32-bit words and
  read as an \<^verbatim>\<open>int\<close> by the parameter \<^verbatim>\<open>size\<close>.
\<close>

fun initProjections_loop ::
  "env \<Rightarrow> cint \<Rightarrow> nat list \<Rightarrow> float list list \<Rightarrow> error + float list list" where
  "initProjections_loop env md [] rs = Inr rs"
| "initProjections_loop env md (i # js) rs =
     (case computeRandomVector env (sint (md - of_nat i)) i of
        Inl e \<Rightarrow> Inl e
      | Inr new_v \<Rightarrow>
          let b = map (\<lambda>n. fneg (foldl (\<lambda>sum m. fadd sum (fmul (new_v ! m) (rs ! n ! m)))
                                   (Fin 0) [0..<length new_v]))
                      [0..<length rs];
              A = map (\<lambda>n. map (\<lambda>m. rs ! n ! m) [length (rs ! n) - i..<length (rs ! n)])
                      [0..<length rs];
              x = solve env A b
          in initProjections_loop env md js
               (rs @ [unitVector (new_v @ map x [0..<length rs])]))"

text \<open>
  \<^verbatim>\<open>initProjections\<close>: the first vector, then the loop while \<^verbatim>\<open>i < num_proj_\<close>, a
  comparison of a \<^verbatim>\<open>uint\<close> with an \<^verbatim>\<open>int\<close>.
\<close>

definition initProjections :: "env \<Rightarrow> cint \<Rightarrow> cint \<Rightarrow> error + float list list" where
  "initProjections env np md =
     (case computeRandomVector env (sint md) 0 of
        Inl e \<Rightarrow> Inl e
      | Inr v \<Rightarrow> initProjections_loop env md [1..<unat np] [unitVector v])"

definition init :: "env \<Rightarrow> hash_state \<Rightarrow> error + hash_state" where
  "init env st =
     (case initProjections env (num_proj st) (max_desc st) of
        Inl e \<Rightarrow> Inl e
      | Inr rs \<Rightarrow> Inr (st\<lparr>basis := rs, initialized := True\<rparr>))"

section \<open>hash.cc: the hash of a descriptor matrix\<close>

text \<open>
  The adjustment of the descriptor matrix: with more rows than \<^verbatim>\<open>r_[0].size()\<close> (the
  argument \<open>cap\<close>), the rows \<^verbatim>\<open>indices[0], indices[1], ...\<close> of the shuffled index vector
  are copied into a matrix of \<^verbatim>\<open>desc.rows - diff\<close> rows.
\<close>

definition adjust_desc :: "env \<Rightarrow> nat \<Rightarrow> float mat \<Rightarrow> float mat" where
  "adjust_desc env cap desc =
     (if rows desc > cap then
        let diff = rows desc - cap
        in \<lparr>rows = rows desc - diff, cols = cols desc,
            entry = (\<lambda>i n. entry desc (shuffled env (rows desc) i) n)\<rparr>
      else desc)"

text \<open>
  The innermost loop, over the rows \<open>m\<close> with \<^verbatim>\<open>m < adjusted_desc.rows && m < max_desc_\<close>:
  the sum of the values \<^verbatim>\<open>(r_[i][m] * adjusted_desc.at(m, n) + 1.0) / 2.0\<close>.
\<close>

definition desc_sum :: "float list \<Rightarrow> cint \<Rightarrow> float mat \<Rightarrow> nat \<Rightarrow> float" where
  "desc_sum r_i md adjusted_desc n =
     foldl (\<lambda>s m. fadd s (fdiv (fadd (fmul (r_i ! m) (entry adjusted_desc m n)) (Fin 1)) (Fin 2)))
       (Fin 0) [0..<min (rows adjusted_desc) (unat md)]"

text \<open>
  The two outer loops. The vector has \<^verbatim>\<open>r_.size() * adjusted_desc.cols\<close> zeros at first;
  the pair \<open>(i, n)\<close> writes \<^verbatim>\<open>desc_sum / desc_length\<close> at the index \<^verbatim>\<open>i*n\<close>, a product of
  a \<^verbatim>\<open>uint\<close> and an \<^verbatim>\<open>int\<close> and so taken modulo \<open>2^32\<close>.
\<close>

definition project :: "float list list \<Rightarrow> cint \<Rightarrow> float mat \<Rightarrow> float list" where
  "project rs md adjusted_desc =
     (let desc_length = float_of_nat (rows adjusted_desc)
      in foldl (\<lambda>hash i.
           foldl (\<lambda>hash n. hash[(i * n) mod 2 ^ 32 :=
                              fdiv (desc_sum (rs ! i) md adjusted_desc n) desc_length])
             hash [0..<cols adjusted_desc])
         (replicate (length rs * cols adjusted_desc) (Fin 0)) [0..<length rs])"

text \<open>
  \<^verbatim>\<open>Hash::calcHash\<close>: the lazy initialisation, the empty result for a matrix without
  rows, the adjustment and the projection. The result carries the state of the object.
\<close>

definition calcHash :: "env \<Rightarrow> hash_state \<Rightarrow> float mat \<Rightarrow> error + (float list \<times> hash_state)" where
  "calcHash env st desc =
     (case (if initialized st then Inr st else init env st) of
        Inl e \<Rightarrow> Inl e
      | Inr st1 \<Rightarrow>
          if rows desc = 0 then Inr ([], st1)
          else let adjusted_desc = adjust_desc env (length (basis st1 ! 0)) desc
               in Inr (project (basis st1) (max_desc st1) adjusted_desc, st1))"

section \<open>haloc.cc: the store and the matcher\<close>

text \<open>
  A \<^verbatim>\<open>std::map<uint, V>\<close> is the list of its entries in iteration order, which is the
  ascending order of the keys. \<open>map_assign k v m\<close> is the assignment \<^verbatim>\<open>m[k] = v\<close>: it
  replaces the value of an entry with the key \<open>k\<close> or inserts a new entry at its place
  in the order.
\<close>

fun map_assign :: "uint \<Rightarrow> 'v \<Rightarrow> (uint \<times> 'v) list \<Rightarrow> (uint \<times> 'v) list" where
  "map_assign k v [] = [(k, v)]"
| "map_assign k v (p # ps) =
     (if fst p = k then (k, v) # ps
      else if k < fst p then (k, v) # p # ps
      else p # map_assign k v ps)"

text \<open>
  The state of a \<^verbatim>\<open>Haloc\<close> object: the \<^verbatim>\<open>Hash\<close> object behind \<^verbatim>\<open>hash_\<close> (here
  \<open>hash_obj\<close>) and the member \<^verbatim>\<open>hashes_table_\<close>. The detector \<^verbatim>\<open>sift_\<close> is the
  parameter \<open>sift\<close> of the model.
\<close>

record haloc_state =
  hash_obj :: hash_state
  hashes_table :: "(uint \<times> float list) list"

definition Haloc :: "cint \<Rightarrow> cint \<Rightarrow> haloc_state" where
  "Haloc np md = \<lparr>hash_obj = Hash np md, hashes_table = []\<rparr>"

definition calcDesc :: "env \<Rightarrow> image \<Rightarrow> float mat" where
  "calcDesc env img = sift env img"

text \<open>
  \<^verbatim>\<open>Haloc::calcSimilarities\<close>: the loop over the entries of the table, which skips the
  ignored ids and the similarities with \<^verbatim>\<open>similarity <= 0.0\<close>.
\<close>

definition calcSimilarities ::
  "(uint \<times> float list) list \<Rightarrow> float list \<Rightarrow> uint set \<Rightarrow> (uint \<times> float) list" where
  "calcSimilarities table hash images_to_ignore =
     foldl (\<lambda>similarities hash_pair.
              if fst hash_pair \<in> images_to_ignore then similarities
              else let similarity = calcSimilarity hash (snd hash_pair)
                   in if fle similarity (Fin 0) then similarities
                      else map_assign (fst hash_pair) similarity similarities)
       [] table"

text \<open>
  \<^verbatim>\<open>std::min_element\<close> with the comparison \<^verbatim>\<open>p1.second < p2.second\<close>: the first entry
  is the smallest so far, and a later entry replaces it when it compares below it.
  The loop of \<^verbatim>\<open>getBestCandidates\<close> calls it on a non-empty map only.
\<close>

fun min_element :: "(uint \<times> float) list \<Rightarrow> uint \<times> float" where
  "min_element (p # ps) =
     foldl (\<lambda>smallest q. if fless (snd q) (snd smallest) then q else smallest) p ps"

text \<open>
  The loop of \<^verbatim>\<open>getBestCandidates\<close>. Its bound is \<^verbatim>\<open>num_candidates\<close> after the conversion
  to \<^verbatim>\<open>size_t\<close> that the comparison with \<^verbatim>\<open>candidates.size()\<close> applies.
\<close>

function getBestCandidates_loop ::
  "nat \<Rightarrow> (uint \<times> float) list \<Rightarrow> uint list \<Rightarrow> uint list" where
  "getBestCandidates_loop bound similarities candidates =
     (if length candidates < bound \<and> similarities \<noteq> [] then
        let min_sim = min_element similarities
        in getBestCandidates_loop bound (remove1 min_sim similarities)
             (candidates @ [fst min_sim])
      else candidates)"
  by pat_completeness auto
termination
proof (relation "measure (\<lambda>(bound, similarities, candidates). length similarities)")
  show "wf (measure (\<lambda>(bound, similarities, candidates). length similarities))"
    by simp
next
  fix bound :: nat and similarities :: "(uint \<times> float) list" and candidates :: "uint list"
    and min_sim
  assume ne: "length candidates < bound \<and> similarities \<noteq> []"
    and m: "min_sim = min_element similarities"
  have mem: "foldl (\<lambda>smallest q. if fless (snd q) (snd smallest) then q else smallest) p ps
               \<in> set (p # ps)" for p :: "uint \<times> float" and ps
    by (induction ps arbitrary: p) (simp, force)
  from ne obtain p ps where "similarities = p # ps"
    by (cases similarities) auto
  with m mem[of p ps] have el: "min_sim \<in> set similarities"
    by simp
  then have "0 < length similarities"
    by (rule length_pos_if_in_set)
  with el show "((bound, remove1 min_sim similarities, candidates @ [fst min_sim]),
              (bound, similarities, candidates))
             \<in> measure (\<lambda>(bound, similarities, candidates). length similarities)"
    by (simp add: length_remove1)
qed

definition getBestCandidates :: "(uint \<times> float) list \<Rightarrow> cint \<Rightarrow> uint list" where
  "getBestCandidates similarities num_candidates =
     getBestCandidates_loop (size_t_of_int num_candidates) similarities []"

text \<open>
  \<^verbatim>\<open>Haloc::process\<close>. The result is \<open>None\<close> for \<^verbatim>\<open>std::nullopt\<close>; it carries the new
  state of the object. An exception of \<^verbatim>\<open>calcHash\<close> leaves the function.
\<close>

definition process ::
  "env \<Rightarrow> haloc_state \<Rightarrow> uint \<Rightarrow> image \<Rightarrow> cint \<Rightarrow> uint set
     \<Rightarrow> error + (uint list option \<times> haloc_state)" where
  "process env st image_id img num_candidates images_to_ignore =
     (if mat_empty img then Inr (None, st)
      else case calcHash env (hash_obj st) (calcDesc env img) of
        Inl e \<Rightarrow> Inl e
      | Inr (hash, hs) \<Rightarrow>
          if hash = [] then Inr (None, st\<lparr>hash_obj := hs\<rparr>)
          else let table = map_assign image_id hash (hashes_table st);
                   similarities = calcSimilarities table hash images_to_ignore;
                   candidates = getBestCandidates similarities num_candidates;
                   st' = \<lparr>hash_obj = hs, hashes_table = table\<rparr>
               in if candidates = [] then Inr (None, st') else Inr (Some candidates, st'))"

section \<open>Predicates of the statements\<close>

text \<open>A float that is not below zero: a finite value from 0 on, \<open>+inf\<close> or NaN.\<close>

fun not_neg :: "float \<Rightarrow> bool" where
  "not_neg (Fin x) = (0 \<le> x)"
| "not_neg NInf = False"
| "not_neg f = True"

text \<open>
  The invariant of a \<^verbatim>\<open>Hash\<close> object after its initialisation: \<^verbatim>\<open>max_desc_\<close> is not
  negative, the basis has one vector, or \<^verbatim>\<open>num_proj_\<close> vectors if that is more, and
  every vector has \<^verbatim>\<open>max_desc_\<close> components. \<open>initProjections\<close> establishes it.
\<close>

definition hash_inv :: "hash_state \<Rightarrow> bool" where
  "hash_inv st =
     (initialized st \<longrightarrow>
        0 \<le> sint (max_desc st) \<and>
        length (basis st) = max 1 (unat (num_proj st)) \<and>
        (\<forall>v\<in>set (basis st). length v = nat (sint (max_desc st))))"

text \<open>The invariant of a \<^verbatim>\<open>std::map\<close>: the keys ascend strictly.\<close>

definition wf_map :: "(uint \<times> 'v) list \<Rightarrow> bool" where
  "wf_map m = sorted_wrt (<) (map fst m)"

text \<open>
  The similarity that a call of \<^verbatim>\<open>process\<close> for \<open>image_id\<close> gave the stored id \<open>k\<close>, read
  from the state after the call: the table holds the new hash under \<open>image_id\<close>.
\<close>

definition similarity_to :: "haloc_state \<Rightarrow> uint \<Rightarrow> uint \<Rightarrow> float" where
  "similarity_to st image_id k =
     (case (map_of (hashes_table st) image_id, map_of (hashes_table st) k) of
        (Some hash, Some h) \<Rightarrow> calcSimilarity hash h
      | _ \<Rightarrow> NaN)"

text \<open>
  The eligible ids: the stored ids that are not ignored and whose similarity passes the
  test of the code, which drops \<^verbatim>\<open>similarity <= 0.0\<close>. The ids with a positive similarity
  are eligible; so is an id whose similarity is NaN.
\<close>

definition eligible :: "haloc_state \<Rightarrow> uint \<Rightarrow> uint set \<Rightarrow> uint list" where
  "eligible st image_id images_to_ignore =
     filter (\<lambda>k. k \<notin> images_to_ignore \<and> \<not> fle (similarity_to st image_id k) (Fin 0))
       (map fst (hashes_table st))"

definition positive_ids :: "haloc_state \<Rightarrow> uint \<Rightarrow> uint set \<Rightarrow> uint list" where
  "positive_ids st image_id images_to_ignore =
     filter (\<lambda>k. k \<notin> images_to_ignore \<and> fless (Fin 0) (similarity_to st image_id k))
       (map fst (hashes_table st))"

section \<open>Concrete inputs\<close>

text \<open>
  A first environment: \<^verbatim>\<open>rand()\<close> gives the components \<open>3/5\<close> and \<open>4/5\<close> for the first
  vector and \<open>4/5\<close> afterwards; the solver solves the system of one equation that the
  second vector needs. \<open>Hash 2 2\<close> builds the orthonormal basis \<open>basis_a\<close> from it.
\<close>

definition env_a :: env where
  "env_a = \<lparr>rand_val = (\<lambda>seed k. if seed = 0 then [Fin (3/5), Fin (4/5)] ! k else Fin (4/5)),
            solve = (\<lambda>A b n. fdiv (b ! 0) (A ! 0 ! 0)),
            shuffled = (\<lambda>k i. i),
            sift = (\<lambda>img. \<lparr>rows = 0, cols = 0, entry = (\<lambda>m n. Fin 0)\<rparr>)\<rparr>"

definition basis_a :: "float list list" where
  "basis_a = [[Fin (3/5), Fin (4/5)], [Fin (4/5), Fin (- (3/5))]]"

definition hash_state_a :: hash_state where
  "hash_state_a = \<lparr>initialized = True, num_proj = 2, max_desc = 2, basis = basis_a\<rparr>"

text \<open>A descriptor matrix with the one row \<open>(5, 10)\<close>.\<close>

definition desc_a :: "float mat" where
  "desc_a = \<lparr>rows = 1, cols = 2, entry = (\<lambda>m n. Fin ([[5, 10]] ! m ! n))\<rparr>"

text \<open>
  A second environment: \<^verbatim>\<open>rand()\<close> always gives \<^verbatim>\<open>RAND_MAX\<close>, the shuffle reverses the
  indices. With \<^verbatim>\<open>max_desc = 1\<close> the basis is the one vector \<open>(1)\<close>.
\<close>

definition env_b :: env where
  "env_b = \<lparr>rand_val = (\<lambda>seed k. Fin 1),
            solve = (\<lambda>A b n. Fin 0),
            shuffled = (\<lambda>k i. k - 1 - i),
            sift = (\<lambda>img. \<lparr>rows = rows img, cols = 1, entry = (\<lambda>m n. Fin (real (unat (entry img m 0))))\<rparr>)\<rparr>"

definition hash_state_b :: "cint \<Rightarrow> hash_state" where
  "hash_state_b np = \<lparr>initialized = True, num_proj = np, max_desc = 1, basis = [[Fin 1]]\<rparr>"

text \<open>A matrix with the two rows \<open>(3)\<close> and \<open>(7)\<close>, and one with the row \<open>(3)\<close>.\<close>

definition desc_b :: "float mat" where
  "desc_b = \<lparr>rows = 2, cols = 1, entry = (\<lambda>m n. Fin ([[3], [7]] ! m ! n))\<rparr>"

definition desc_c :: "float mat" where
  "desc_c = \<lparr>rows = 1, cols = 1, entry = (\<lambda>m n. Fin 3)\<rparr>"

text \<open>
  Images of one pixel; the detector of \<open>env_b\<close> returns one descriptor with the value of
  the pixel. With the basis \<open>(1)\<close> the hash of the pixel \<open>p\<close> is \<open>((p + 1) / 2)\<close>.
\<close>

definition img_px :: "8 word \<Rightarrow> image" where
  "img_px p = \<lparr>rows = 1, cols = 1, entry = (\<lambda>m n. p)\<rparr>"

definition img_none :: image where
  "img_none = \<lparr>rows = 0, cols = 0, entry = (\<lambda>m n. 0)\<rparr>"

text \<open>
  The states of a \<open>Haloc 1 1\<close> object after the images with the pixels 1, 3 and 7 under
  the ids 1, 2 and 3, and after a fourth image under the id 4.
\<close>

definition haloc_store :: "(uint \<times> float list) list \<Rightarrow> haloc_state" where
  "haloc_store table = \<lparr>hash_obj = hash_state_b 1, hashes_table = table\<rparr>"

definition table_123 :: "(uint \<times> float list) list" where
  "table_123 = [(1, [Fin 1]), (2, [Fin 2]), (3, [Fin 4])]"

text \<open>
  The states of a \<open>Haloc 1 0\<close> object: with \<^verbatim>\<open>max_desc = 0\<close> the basis is the empty vector,
  no row is retained, and the first entry of every hash is \<open>0 / 0\<close>.
\<close>

definition haloc_nan :: "(uint \<times> float list) list \<Rightarrow> haloc_state" where
  "haloc_nan table =
     \<lparr>hash_obj = \<lparr>initialized = True, num_proj = 1, max_desc = 0, basis = [[]]\<rparr>,
      hashes_table = table\<rparr>"

section \<open>Properties of the similarity\<close>

text \<open>
  The facts of this section hold of the arithmetic with rounding as they hold of the
  exact one: a difference of finite values is not NaN, the difference of a finite value
  and itself is 0, a square of a value other than NaN is a value from 0 on or \<open>+inf\<close>, and
  so are the sum and the square root of such values. No fact gives the value of a sum or
  of a square root of other operands.
\<close>

lemma not_neg_fsqrt: "not_neg (fsqrt f)"
  by (cases f) auto

lemma not_neg_not_below_zero: "not_neg f \<Longrightarrow> \<not> fless f (Fin 0)"
  by (cases f) auto

lemma calcSimilarity_not_neg: "length a = length b \<Longrightarrow> not_neg (calcSimilarity a b)"
  by (simp add: calcSimilarity_def not_neg_fsqrt)

lemma calcSimilarity_not_below_zero:
  "length a = length b \<Longrightarrow> \<not> fless (calcSimilarity a b) (Fin 0)"
  by (intro not_neg_not_below_zero calcSimilarity_not_neg)

lemma calcSimilarity_mismatch: "length a \<noteq> length b \<Longrightarrow> calcSimilarity a b = Fin (- 1)"
  by (simp add: calcSimilarity_def)

lemma foldl_index:
  "foldl (\<lambda>s i. F s (zs ! i)) s0 [0..<length zs] = foldl F s0 zs"
proof (induction zs rule: rev_induct)
  case Nil
  then show ?case by simp
next
  case (snoc z zs)
  have "foldl (\<lambda>s i. F s ((zs @ [z]) ! i)) s0 [0..<length zs]
        = foldl (\<lambda>s i. F s (zs ! i)) s0 [0..<length zs]"
    by (rule foldl_cong) (simp_all add: nth_append)
  with snoc show ?case by simp
qed

text \<open>The loop over the positions adds up the squared differences of the paired entries.\<close>

lemma calcSimilarity_zip:
  assumes "length a = length b"
  shows "calcSimilarity a b
           = fsqrt (foldl fadd (Fin 0) (map (\<lambda>(x, y). fpow2 (fsub x y)) (zip a b)))"
proof -
  have "foldl (\<lambda>sim i. fadd sim (fpow2 (fsub (a ! i) (b ! i)))) (Fin 0) [0..<length a]
        = foldl (\<lambda>sim i. fadd sim (case zip a b ! i of (x, y) \<Rightarrow> fpow2 (fsub x y))) (Fin 0)
            [0..<length (zip a b)]"
    using assms by (intro foldl_cong) simp_all
  also have "\<dots> = foldl (\<lambda>sim p. fadd sim (case p of (x, y) \<Rightarrow> fpow2 (fsub x y)))
                      (Fin 0) (zip a b)"
    by (rule foldl_index)
  also have "\<dots> = foldl fadd (Fin 0) (map (\<lambda>(x, y). fpow2 (fsub x y)) (zip a b))"
    by (simp add: foldl_map)
  finally show ?thesis using assms by (simp add: calcSimilarity_def)
qed

text \<open>Hashes with finite entries: the similarity is a value from 0 on, or \<open>+inf\<close>.\<close>

lemma ge_zero_fpow2: "f \<noteq> NaN \<Longrightarrow> fle (Fin 0) (fpow2 f)"
  by (cases f) auto

lemma ge_zero_fadd: "fle (Fin 0) f \<Longrightarrow> fle (Fin 0) g \<Longrightarrow> fle (Fin 0) (fadd f g)"
  by (cases f; cases g) auto

lemma ge_zero_fsqrt: "fle (Fin 0) f \<Longrightarrow> fle (Fin 0) (fsqrt f)"
  by (cases f) auto

lemma fsub_finite: "is_Fin x \<Longrightarrow> is_Fin y \<Longrightarrow> fsub x y \<noteq> NaN"
  by (cases x; cases y) (auto simp: fsub_def)

lemma fsub_self: "is_Fin x \<Longrightarrow> fpow2 (fsub x x) = Fin 0"
  by (cases x) (auto simp: fsub_def)

lemma ge_zero_sum:
  "fle (Fin 0) s \<Longrightarrow> \<forall>z\<in>set zs. fle (Fin 0) z \<Longrightarrow> fle (Fin 0) (foldl fadd s zs)"
  by (induction zs arbitrary: s) (auto intro: ge_zero_fadd)

lemma zero_sum: "\<forall>z\<in>set zs. z = Fin 0 \<Longrightarrow> foldl fadd (Fin 0) zs = Fin 0"
  by (induction zs) auto

lemma calcSimilarity_ge_zero:
  assumes "length a = length b" and "list_all is_Fin a" and "list_all is_Fin b"
  shows "fle (Fin 0) (calcSimilarity a b)"
proof -
  have "\<forall>z\<in>set (map (\<lambda>(x, y). fpow2 (fsub x y)) (zip a b)). fle (Fin 0) z"
  proof
    fix z
    assume "z \<in> set (map (\<lambda>(x, y). fpow2 (fsub x y)) (zip a b))"
    then obtain x y where xy: "(x, y) \<in> set (zip a b)" and z: "z = fpow2 (fsub x y)"
      by auto
    from xy have "x \<in> set a" "y \<in> set b"
      by (auto dest: set_zip_leftD set_zip_rightD)
    with assms(2,3) have "is_Fin x" "is_Fin y" by (auto simp: list_all_iff)
    then show "fle (Fin 0) z" unfolding z by (intro ge_zero_fpow2 fsub_finite)
  qed
  then have "fle (Fin 0) (foldl fadd (Fin 0) (map (\<lambda>(x, y). fpow2 (fsub x y)) (zip a b)))"
    by (intro ge_zero_sum) simp_all
  then show ?thesis
    unfolding calcSimilarity_zip[OF assms(1)] by (rule ge_zero_fsqrt)
qed

lemma calcSimilarity_not_NaN:
  assumes "list_all is_Fin a" and "list_all is_Fin b"
  shows "calcSimilarity a b \<noteq> NaN"
proof (cases "length a = length b")
  case True
  from calcSimilarity_ge_zero[OF True assms] show ?thesis by auto
next
  case False
  then show ?thesis by (simp add: calcSimilarity_mismatch)
qed

text \<open>The similarity of a hash with finite entries to itself is 0.\<close>

lemma calcSimilarity_self: "list_all is_Fin h \<Longrightarrow> calcSimilarity h h = Fin 0"
proof -
  assume fin: "list_all is_Fin h"
  have "\<forall>z\<in>set (map (\<lambda>(x, y). fpow2 (fsub x y)) (zip h h)). z = Fin 0"
  proof
    fix z
    assume "z \<in> set (map (\<lambda>(x, y). fpow2 (fsub x y)) (zip h h))"
    then obtain x where "x \<in> set h" and z: "z = fpow2 (fsub x x)"
      by (auto simp: zip_same)
    with fin have "is_Fin x" by (auto simp: list_all_iff)
    then show "z = Fin 0" unfolding z by (rule fsub_self)
  qed
  then have "foldl fadd (Fin 0) (map (\<lambda>(x, y). fpow2 (fsub x y)) (zip h h)) = Fin 0"
    by (rule zero_sum)
  then show ?thesis using calcSimilarity_zip[of h h] by simp
qed

text \<open>Apart from NaN the floats are in a total order, and a value not \<^verbatim>\<open><= 0\<close> is positive.\<close>

lemma fle_total: "x \<noteq> NaN \<Longrightarrow> y \<noteq> NaN \<Longrightarrow> fle x y \<longleftrightarrow> \<not> fless y x"
  by (cases x; cases y) auto

lemma positive_iff: "x \<noteq> NaN \<Longrightarrow> fless (Fin 0) x \<longleftrightarrow> \<not> fle x (Fin 0)"
  by (cases x) auto

text \<open>
  C4, amended. \<^verbatim>\<open>calcSimilarity\<close> returns a value below zero exactly when the two hashes
  differ in length, and the value is then the sentinel \<open>-1\<close>. For hashes of equal length
  it returns the square root of the sum of the squared differences of the entries, as
  the arithmetic of the floats computes it; this result is never below zero (it is a
  finite value from 0 on, \<open>+inf\<close> or NaN), and it is \<^verbatim>\<open>>= 0\<close> whenever all the entries of
  the two hashes are finite.
\<close>

theorem calcSimilarity_sentinel_iff_mismatch:
  "(fless (calcSimilarity a b) (Fin 0) \<longleftrightarrow> length a \<noteq> length b) \<and>
   (length a \<noteq> length b \<longrightarrow> calcSimilarity a b = Fin (- 1)) \<and>
   (length a = length b \<longrightarrow>
      calcSimilarity a b
        = fsqrt (foldl fadd (Fin 0) (map (\<lambda>(x, y). fpow2 (fsub x y)) (zip a b))) \<and>
      not_neg (calcSimilarity a b)) \<and>
   (length a = length b \<and> list_all is_Fin a \<and> list_all is_Fin b \<longrightarrow>
      fle (Fin 0) (calcSimilarity a b))"
proof (intro conjI impI)
  show "fless (calcSimilarity a b) (Fin 0) \<longleftrightarrow> length a \<noteq> length b"
  proof (cases "length a = length b")
    case True
    then show ?thesis using calcSimilarity_not_below_zero[of a b] by simp
  next
    case False
    then show ?thesis by (simp add: calcSimilarity_mismatch)
  qed
next
  assume "length a \<noteq> length b"
  then show "calcSimilarity a b = Fin (- 1)"
    by (rule calcSimilarity_mismatch)
next
  assume "length a = length b"
  then show "calcSimilarity a b
        = fsqrt (foldl fadd (Fin 0) (map (\<lambda>(x, y). fpow2 (fsub x y)) (zip a b)))"
    by (rule calcSimilarity_zip)
next
  assume "length a = length b"
  then show "not_neg (calcSimilarity a b)"
    by (rule calcSimilarity_not_neg)
next
  assume "length a = length b \<and> list_all is_Fin a \<and> list_all is_Fin b"
  then show "fle (Fin 0) (calcSimilarity a b)"
    by (simp add: calcSimilarity_ge_zero)
qed

theorem calcSimilarity_sentinel_iff_mismatch_witness:
  "length [Fin 1] \<noteq> length ([] :: float list) \<and>
   fless (calcSimilarity [Fin 1] []) (Fin 0) \<and> calcSimilarity [Fin 1] [] = Fin (- 1) \<and>
   length [Fin 1, Fin 5] = length [Fin 4, Fin 1] \<and>
   list_all is_Fin [Fin 1, Fin 5] \<and> list_all is_Fin [Fin 4, Fin 1] \<and>
   calcSimilarity [Fin 1, Fin 5] [Fin 4, Fin 1] = Fin 5 \<and>
   \<not> fless (calcSimilarity [Fin 1, Fin 5] [Fin 4, Fin 1]) (Fin 0) \<and>
   fle (Fin 0) (calcSimilarity [Fin 1, Fin 5] [Fin 4, Fin 1])"
  using calcSimilarity_sentinel_iff_mismatch[of "[Fin 1]" "[]"]
    calcSimilarity_sentinel_iff_mismatch[of "[Fin 1, Fin 5]" "[Fin 4, Fin 1]"]
  by (simp add: fsub_def)

section \<open>Properties of the basis\<close>

lemma length_unitVector: "length (unitVector x) = length x"
  by (simp add: unitVector_def Let_def)

lemma uint_of_nonneg: "0 \<le> sint (w :: 32 word) \<Longrightarrow> uint w = sint w"
proof -
  assume a: "0 \<le> sint w"
  have "sint w < 2 ^ 32" using sint_lt[of w] by simp
  then have "take_bit 32 (sint w) = sint w" using a by (simp add: take_bit_int_eq_self)
  then show ?thesis using uint_sint[of w] by simp
qed

lemma unat_of_nonneg: "0 \<le> sint (w :: 32 word) \<Longrightarrow> unat w = nat (sint w)"
  using uint_of_nonneg[of w, symmetric] by simp

text \<open>The subtraction \<^verbatim>\<open>max_desc_ - i\<close> does not wrap around while \<open>i \<le> max_desc_ + 1\<close>.\<close>

lemma sint_sub_of_nat:
  assumes "0 \<le> sint (md :: 32 word)" and "int i \<le> sint md + 1"
  shows "sint (md - of_nat i) = sint md - int i"
proof -
  have "md - of_nat i = word_of_int (sint md - int i)" by simp
  then have "sint (md - of_nat i) = signed_take_bit 31 (sint md - int i)"
    by (simp only: sint_sbintrunc') simp
  moreover have "sint md < 2 ^ 31" using sint_lt[of md] by simp
  ultimately show ?thesis using assms by (simp add: signed_take_bit_int_eq_self)
qed

text \<open>
  The loop at step \<open>i\<close> holds \<open>i\<close> vectors. A step that does not throw has
  \<open>i \<le> max_desc_\<close>, and its vector has \<open>max_desc_ - i\<close> random and \<open>i\<close> solved components.
\<close>

lemma initProjections_loop_lengths:
  assumes "initProjections_loop env md js rs = Inr rs'"
    and "js = [length rs..<P]"
    and "0 \<le> sint md" and "int (length rs) \<le> sint md + 1"
    and "\<forall>v\<in>set rs. length v = nat (sint md)"
  shows "length rs' = max (length rs) P \<and>
         int (length rs') \<le> max (sint md + 1) (int (length rs)) \<and>
         (\<forall>v\<in>set rs'. length v = nat (sint md))"
  using assms
proof (induction js arbitrary: rs)
  case Nil
  from Nil.prems(2) have "P \<le> length rs" by (auto simp: eq_commute[of "[]"])
  then show ?case using Nil.prems by auto
next
  case (Cons i js)
  from Cons.prems(2)[symmetric]
  have iP: "length rs < P" and i: "i = length rs" and js: "js = [Suc (length rs)..<P]"
    by (auto simp: upt_eq_Cons_conv)
  from Cons.prems(1) obtain new_v where
    nv: "computeRandomVector env (sint (md - of_nat i)) i = Inr new_v"
    by (auto split: sum.splits)
  have s: "sint (md - of_nat i) = sint md - int i"
    using sint_sub_of_nat[OF Cons.prems(3)] Cons.prems(4) i by simp
  from nv s have ge: "int i \<le> sint md" and lnv: "length new_v = nat (sint md - int i)"
    by (auto simp: computeRandomVector_def split: if_splits)
  define rs1 where "rs1 = rs @ [unitVector (new_v @ map (solve env
      (map (\<lambda>n. map (\<lambda>m. rs ! n ! m) [length (rs ! n) - i..<length (rs ! n)]) [0..<length rs])
      (map (\<lambda>n. fneg (foldl (\<lambda>sum m. fadd sum (fmul (new_v ! m) (rs ! n ! m)))
                         (Fin 0) [0..<length new_v])) [0..<length rs]))
      [0..<length rs])]"
  from Cons.prems(1) nv have run: "initProjections_loop env md js rs1 = Inr rs'"
    by (simp add: rs1_def Let_def)
  have l1: "length rs1 = Suc (length rs)" by (simp add: rs1_def)
  have "length (new_v @ map f [0..<length rs]) = nat (sint md)" for f :: "nat \<Rightarrow> float"
    using lnv ge i by simp
  then have v1: "\<forall>v\<in>set rs1. length v = nat (sint md)"
    using Cons.prems(5) by (auto simp: rs1_def length_unitVector simp del: length_append)
  have "length rs' = max (length rs1) P \<and>
        int (length rs') \<le> max (sint md + 1) (int (length rs1)) \<and>
        (\<forall>v\<in>set rs'. length v = nat (sint md))"
    using Cons.IH[OF run _ Cons.prems(3) _ v1] js l1 ge i by simp
  then show ?case using l1 iP ge i by auto
qed

lemma initProjections_loop_succeeds:
  assumes "js = [length rs..<P]" and "0 \<le> sint md" and "int P \<le> sint md + 1"
  shows "\<exists>rs'. initProjections_loop env md js rs = Inr rs'"
  using assms
proof (induction js arbitrary: rs)
  case Nil
  then show ?case by simp
next
  case (Cons i js)
  from Cons.prems(1)[symmetric]
  have iP: "length rs < P" and i: "i = length rs" and js: "js = [Suc (length rs)..<P]"
    by (auto simp: upt_eq_Cons_conv)
  have s: "sint (md - of_nat i) = sint md - int i"
    using sint_sub_of_nat[OF Cons.prems(2)] Cons.prems(3) i iP by simp
  then obtain new_v where nv: "computeRandomVector env (sint (md - of_nat i)) i = Inr new_v"
    using iP i Cons.prems(3) by (auto simp: computeRandomVector_def)
  define rs1 where "rs1 = rs @ [unitVector (new_v @ map (solve env
      (map (\<lambda>n. map (\<lambda>m. rs ! n ! m) [length (rs ! n) - i..<length (rs ! n)]) [0..<length rs])
      (map (\<lambda>n. fneg (foldl (\<lambda>sum m. fadd sum (fmul (new_v ! m) (rs ! n ! m)))
                         (Fin 0) [0..<length new_v])) [0..<length rs]))
      [0..<length rs])]"
  have "js = [length rs1..<P]" using js by (simp add: rs1_def)
  from Cons.IH[OF this Cons.prems(2,3)]
  obtain rs' where "initProjections_loop env md js rs1 = Inr rs'"
    by blast
  then show ?case using nv by (simp add: rs1_def Let_def)
qed

lemma initProjections_lengths:
  assumes "initProjections env np md = Inr rs"
  shows "0 \<le> sint md \<and> length rs = max 1 (unat np) \<and>
         (\<forall>v\<in>set rs. length v = nat (sint md))"
proof -
  from assms obtain v where v: "computeRandomVector env (sint md) 0 = Inr v"
    and run: "initProjections_loop env md [1..<unat np] [unitVector v] = Inr rs"
    by (auto simp: initProjections_def split: sum.splits)
  from v have nn: "0 \<le> sint md" and lv: "length v = nat (sint md)"
    by (auto simp: computeRandomVector_def split: if_splits)
  show ?thesis
    using initProjections_loop_lengths[OF run, of "unat np"] nn lv
    by (auto simp: length_unitVector)
qed

lemma initProjections_succeeds:
  assumes "0 \<le> sint md" and "int (unat np) \<le> sint md + 1"
  shows "\<exists>rs. initProjections env np md = Inr rs"
proof -
  obtain v where v: "computeRandomVector env (sint md) 0 = Inr v"
    using assms(1) by (auto simp: computeRandomVector_def)
  show ?thesis
    using initProjections_loop_succeeds[of "[1..<unat np]" "[unitVector v]" "unat np" md env]
      assms v
    by (simp add: initProjections_def)
qed

text \<open>The lazy initialisation establishes the invariant, and the state keeps it.\<close>

lemma init_hash_inv:
  "init env st = Inr st1 \<Longrightarrow>
   hash_inv st1 \<and> initialized st1 \<and> num_proj st1 = num_proj st \<and> max_desc st1 = max_desc st"
  using initProjections_lengths[of env "num_proj st" "max_desc st"]
  by (auto simp: init_def hash_inv_def split: sum.splits)

section \<open>Properties of the hash\<close>

text \<open>The two outer loops of \<^verbatim>\<open>calcHash\<close> are a sequence of writes into the vector.\<close>

lemma length_writes: "length (foldl (\<lambda>h kv. h[fst kv := snd kv]) h ws) = length h"
  by (induction ws arbitrary: h) auto

lemma writes_other:
  "k \<notin> fst ` set ws \<Longrightarrow> foldl (\<lambda>h kv. h[fst kv := snd kv]) h ws ! k = h ! k"
  by (induction ws arbitrary: h) auto

lemma writes_last:
  "k < length h \<Longrightarrow> k \<notin> fst ` set ws2 \<Longrightarrow>
   foldl (\<lambda>h kv. h[fst kv := snd kv]) h (ws1 @ (k, v) # ws2) ! k = v"
  by (simp add: writes_other length_writes)

lemma foldl_concat: "foldl f a (concat xss) = foldl (foldl f) a xss"
  by (induction xss arbitrary: a) auto

lemma project_writes:
  "project rs md adj =
     foldl (\<lambda>h kv. h[fst kv := snd kv]) (replicate (length rs * cols adj) (Fin 0))
       (concat (map (\<lambda>i. map (\<lambda>n. ((i * n) mod 2 ^ 32,
           fdiv (desc_sum (rs ! i) md adj n) (float_of_nat (rows adj)))) [0..<cols adj])
         [0..<length rs]))"
  by (simp add: project_def Let_def foldl_concat foldl_map)

lemma length_project: "length (project rs md adj) = length rs * cols adj"
  by (simp add: project_writes length_writes)

lemma upt_split: "i < P \<Longrightarrow> [0..<P] = [0..<i] @ i # [Suc i..<P]"
  using upt_add_eq_append[of 0 i "P - i"] by (simp add: upt_conv_Cons)

text \<open>
  The value of the pair \<open>(i, n)\<close> stays at the index \<open>i * n\<close> when no later pair of the
  loops writes there.
\<close>

lemma project_last_writer:
  assumes i: "i < length rs" and n: "n < cols adj"
    and small: "length rs * cols adj \<le> 2 ^ 32"
    and last: "\<forall>i' n'. i' < length rs \<and> n' < cols adj \<and> (i < i' \<or> i' = i \<and> n < n')
                 \<longrightarrow> i' * n' \<noteq> i * n"
  shows "project rs md adj ! (i * n) =
           fdiv (desc_sum (rs ! i) md adj n) (float_of_nat (rows adj))"
proof -
  define f where "f = (\<lambda>i n. ((i * n) mod 2 ^ 32 :: nat,
           fdiv (desc_sum (rs ! i) md adj n) (float_of_nat (rows adj))))"
  define ws1 where
    "ws1 = concat (map (\<lambda>i. map (f i) [0..<cols adj]) [0..<i]) @ map (f i) [0..<n]"
  define ws2 where "ws2 = map (f i) [Suc n..<cols adj] @
      concat (map (\<lambda>i. map (f i) [0..<cols adj]) [Suc i..<length rs])"
  have bound: "i' * n' < 2 ^ 32" if "i' < length rs" "n' < cols adj" for i' n'
  proof -
    have "i' * n' \<le> i' * cols adj" using that by simp
    also have "\<dots> < length rs * cols adj" using that by simp
    finally show ?thesis using small by simp
  qed
  have slot: "(i' * n') mod 2 ^ 32 = i' * n'" if "i' < length rs" "n' < cols adj" for i' n'
    using bound[OF that] by simp
  have split: "concat (map (\<lambda>i. map (f i) [0..<cols adj]) [0..<length rs]) = ws1 @ f i n # ws2"
    unfolding ws1_def ws2_def
    by (subst upt_split[OF i], simp, subst upt_split[OF n], simp)
  have fin: "f i n = (i * n, fdiv (desc_sum (rs ! i) md adj n) (float_of_nat (rows adj)))"
    using slot[OF i n] by (simp add: f_def)
  have notin: "i * n \<notin> fst ` set ws2"
  proof
    assume "i * n \<in> fst ` set ws2"
    then obtain i' n' where "i' < length rs" "n' < cols adj" "i < i' \<or> i' = i \<and> n < n'"
      "fst (f i' n') = i * n"
      using i by (auto simp: ws2_def)
    then show False using last slot by (auto simp: f_def)
  qed
  have "i * n \<le> i * cols adj" using n by simp
  also have "\<dots> < length rs * cols adj" using i n by simp
  finally have inside: "i * n < length rs * cols adj" .
  have "project rs md adj =
      foldl (\<lambda>h kv. h[fst kv := snd kv]) (replicate (length rs * cols adj) (Fin 0))
        (concat (map (\<lambda>i. map (f i) [0..<cols adj]) [0..<length rs]))"
    by (simp add: project_writes f_def)
  also have "\<dots> = foldl (\<lambda>h kv. h[fst kv := snd kv]) (replicate (length rs * cols adj) (Fin 0))
        (ws1 @ (i * n, fdiv (desc_sum (rs ! i) md adj n) (float_of_nat (rows adj))) # ws2)"
    by (simp only: split fin)
  finally have eq: "project rs md adj =
      foldl (\<lambda>h kv. h[fst kv := snd kv]) (replicate (length rs * cols adj) (Fin 0))
        (ws1 @ (i * n, fdiv (desc_sum (rs ! i) md adj n) (float_of_nat (rows adj))) # ws2)" .
  show ?thesis
    unfolding eq by (rule writes_last) (use notin inside in simp_all)
qed

lemma cols_adjust_desc: "cols (adjust_desc env cap desc) = cols desc"
  by (simp add: adjust_desc_def Let_def)

lemma rows_adjust_desc: "rows (adjust_desc env cap desc) = min cap (rows desc)"
  by (simp add: adjust_desc_def Let_def)

lemma entry_adjust_desc:
  "cap < rows desc \<Longrightarrow>
   entry (adjust_desc env cap desc) m n = entry desc (shuffled env (rows desc) m) n"
  by (simp add: adjust_desc_def Let_def)

text \<open>What a call of \<^verbatim>\<open>calcHash\<close> that returns has done.\<close>

lemma calcHash_result:
  assumes "calcHash env st desc = Inr (h, st')" and "hash_inv st"
  shows "hash_inv st' \<and> initialized st' \<and> num_proj st' = num_proj st \<and>
         max_desc st' = max_desc st \<and> (initialized st \<longrightarrow> st' = st) \<and>
         h = (if rows desc = 0 then []
              else project (basis st') (max_desc st')
                     (adjust_desc env (length (basis st' ! 0)) desc))"
proof (cases "initialized st")
  case True
  with assms show ?thesis
    by (auto simp: calcHash_def Let_def split: if_splits)
next
  case False
  with assms(1) obtain st1 where i: "init env st = Inr st1"
    by (auto simp: calcHash_def split: sum.splits)
  with assms(1) False have "st' = st1"
    and "h = (if rows desc = 0 then []
              else project (basis st1) (max_desc st1)
                     (adjust_desc env (length (basis st1 ! 0)) desc))"
    by (auto simp: calcHash_def Let_def split: if_splits)
  with init_hash_inv[OF i] False show ?thesis by simp
qed

text \<open>
  A call of \<^verbatim>\<open>calcHash\<close> returns when the object is initialised, or when the
  initialisation does not throw: \<^verbatim>\<open>max_desc_\<close> is not negative and \<^verbatim>\<open>num_proj_\<close>,
  read as unsigned, is at most \<^verbatim>\<open>max_desc_ + 1\<close>.
\<close>

lemma calcHash_succeeds:
  assumes "initialized st \<or>
           0 \<le> sint (max_desc st) \<and> int (unat (num_proj st)) \<le> sint (max_desc st) + 1"
  shows "\<exists>h st'. calcHash env st desc = Inr (h, st')"
proof (cases "initialized st")
  case True
  then show ?thesis by (simp add: calcHash_def Let_def)
next
  case False
  with assms obtain rs where "initProjections env (num_proj st) (max_desc st) = Inr rs"
    using initProjections_succeeds[of "max_desc st" "num_proj st" env] by auto
  with False show ?thesis by (simp add: calcHash_def init_def Let_def)
qed

text \<open>The calls on the concrete inputs.\<close>

lemma replicate4: "replicate 4 x = [x, x, x, x]"
  by (simp add: numeral_eq_Suc)

lemma initProjections_a: "initProjections env_a 2 2 = Inr basis_a"
  by (simp add: initProjections_def computeRandomVector_def unitVector_def env_a_def basis_a_def
      power2_eq_square upt_conv_Cons)

lemma calcHash_a:
  "calcHash env_a (Hash 2 2) desc_a = Inr ([Fin (5/2), Fin (9/2), Fin 0, Fin 0], hash_state_a)"
  apply (simp add: calcHash_def Hash_def init_def initProjections_a hash_state_a_def)
  apply (simp add: project_def adjust_desc_def desc_a_def desc_sum_def float_of_nat_def basis_a_def
      upt_conv_Cons replicate4)
  done

lemma initProjections_b: "unat np \<le> 1 \<Longrightarrow> initProjections env_b np 1 = Inr [[Fin 1]]"
  by (simp add: initProjections_def computeRandomVector_def unitVector_def env_b_def
      upt_conv_Cons)

lemma calcHash_b:
  "unat np \<le> 1 \<Longrightarrow> calcHash env_b (Hash np 1) desc_b = Inr ([Fin 4], hash_state_b np)"
  apply (simp add: calcHash_def Hash_def init_def initProjections_b hash_state_b_def)
  apply (simp add: project_def adjust_desc_def desc_b_def desc_sum_def float_of_nat_def env_b_def
      upt_conv_Cons)
  done

lemma calcHash_c:
  "unat np \<le> 1 \<Longrightarrow> calcHash env_b (Hash np 1) desc_c = Inr ([Fin 2], hash_state_b np)"
  apply (simp add: calcHash_def Hash_def init_def initProjections_b hash_state_b_def)
  apply (simp add: project_def adjust_desc_def desc_c_def desc_sum_def float_of_nat_def env_b_def
      upt_conv_Cons)
  done

lemma hash_inv_Hash: "hash_inv (Hash np md)"
  by (simp add: hash_inv_def Hash_def)

text \<open>
  C1. The claim: the value of the pair \<open>(i, n)\<close> is written at the index \<open>i * D + n\<close>, so
  that different pairs have different indices. The code writes at the index \<open>i * n\<close>.
  With two projections and the matrix of the one row \<open>(5, 10)\<close>, the value of the pair
  \<open>(0, 1)\<close> is \<open>7/2\<close>, but the index \<open>0 * 2 + 1\<close> of the hash holds \<open>9/2\<close>, the value of the
  pair \<open>(1, 1)\<close>; the pairs \<open>(0, 0)\<close>, \<open>(0, 1)\<close> and \<open>(1, 0)\<close> all write at the index 0, and the
  indices 2 and 3 keep their initial zeros.
\<close>

theorem calcHash_flattening_collides:
  "calcHash env_a (Hash 2 2) desc_a = Inr ([Fin (5/2), Fin (9/2), Fin 0, Fin 0], hash_state_a) \<and>
   fdiv (desc_sum (basis hash_state_a ! 0) (max_desc hash_state_a) desc_a 1)
        (float_of_nat (rows desc_a)) = Fin (7/2) \<and>
   [Fin (5/2), Fin (9/2), Fin 0, Fin 0] ! (0 * cols desc_a + 1) \<noteq> Fin (7/2)"
  by (simp add: calcHash_a)
     (simp add: desc_sum_def hash_state_a_def basis_a_def desc_a_def float_of_nat_def
        upt_conv_Cons)

text \<open>
  C2, as stated: the hash of a matrix with at least one row has \<open>num_proj * D\<close> entries.
  This fails for \<^verbatim>\<open>num_proj = 0\<close>: the basis always holds the first vector, and the hash
  of a matrix with one column has one entry, not \<open>0 * 1\<close>.
\<close>

theorem calcHash_length_counterexample:
  "calcHash env_b (Hash 0 1) desc_c = Inr ([Fin 2], hash_state_b 0) \<and>
   rows desc_c = 1 \<and>
   length [Fin 2 :: float] \<noteq> nat (sint (num_proj (Hash 0 1))) * cols desc_c"
  by (simp add: calcHash_c) (simp add: desc_c_def Hash_def)

text \<open>
  C2, amended: when \<open>1 \<le> num_proj \<le> max_desc + 1\<close>, so that the construction of the
  basis does not throw and gives \<open>num_proj\<close> vectors, \<^verbatim>\<open>calcHash\<close> returns for every
  matrix with at least one row, and the hash has \<open>num_proj * D\<close> entries.
\<close>

theorem calcHash_length:
  assumes "hash_inv st" and "1 \<le> sint (num_proj st)"
    and "sint (num_proj st) \<le> sint (max_desc st) + 1" and "0 < rows desc"
  shows "\<exists>h st'. calcHash env st desc = Inr (h, st') \<and>
                 length h = nat (sint (num_proj st)) * cols desc"
proof -
  have u: "unat (num_proj st) = nat (sint (num_proj st))"
    using assms(2) by (simp add: unat_of_nonneg)
  then have "0 \<le> sint (max_desc st) \<and> int (unat (num_proj st)) \<le> sint (max_desc st) + 1"
    using assms(2,3) by simp
  then obtain h st' where run: "calcHash env st desc = Inr (h, st')"
    using calcHash_succeeds[of st env desc] by blast
  from calcHash_result[OF run assms(1)] assms(4)
  have inv: "hash_inv st'" and ini: "initialized st'" and np: "num_proj st' = num_proj st"
    and h: "h = project (basis st') (max_desc st') (adjust_desc env (length (basis st' ! 0)) desc)"
    by simp_all
  from inv ini np have "length (basis st') = max 1 (unat (num_proj st))"
    by (simp add: hash_inv_def)
  with u assms(2) have "length (basis st') = nat (sint (num_proj st))" by simp
  with h have "length h = nat (sint (num_proj st)) * cols desc"
    by (simp add: length_project cols_adjust_desc)
  with run show ?thesis by blast
qed

theorem calcHash_length_witness:
  "hash_inv (Hash 2 2) \<and> 1 \<le> sint (num_proj (Hash 2 2)) \<and>
   sint (num_proj (Hash 2 2)) \<le> sint (max_desc (Hash 2 2)) + 1 \<and> 0 < rows desc_a \<and>
   (\<exists>h st'. calcHash env_a (Hash 2 2) desc_a = Inr (h, st') \<and> length h = 2 * 2)"
proof -
  have a: "hash_inv (Hash 2 2)" by (rule hash_inv_Hash)
  have b: "1 \<le> sint (num_proj (Hash 2 2))" by (simp add: Hash_def)
  have c: "sint (num_proj (Hash 2 2)) \<le> sint (max_desc (Hash 2 2)) + 1" by (simp add: Hash_def)
  have d: "0 < rows desc_a" by (simp add: desc_a_def)
  from calcHash_length[OF a b c d, of env_a] a b c d show ?thesis
    by (simp add: Hash_def desc_a_def)
qed

text \<open>
  C3, as stated: with more rows than \<^verbatim>\<open>max_desc\<close>, the sum is divided by the row count
  before the subsampling. This fails: of the two rows \<open>(3)\<close> and \<open>(7)\<close> and with
  \<^verbatim>\<open>max_desc = 1\<close> the row \<open>(7)\<close> is retained, the sum is \<open>(1 * 7 + 1) / 2 = 4\<close>, and the
  hash entry is \<open>4 / 1\<close>, not \<open>4 / 2\<close>.
\<close>

theorem calcHash_divisor_counterexample:
  "calcHash env_b (Hash 1 1) desc_b = Inr ([Fin 4], hash_state_b 1) \<and>
   rows desc_b = 2 \<and> sint (max_desc (Hash 1 1)) = 1 \<and>
   desc_sum (basis (hash_state_b 1) ! 0) (max_desc (hash_state_b 1))
     (adjust_desc env_b (length (basis (hash_state_b 1) ! 0)) desc_b) 0 = Fin 4 \<and>
   [Fin 4] ! 0 \<noteq> fdiv (Fin 4) (float_of_nat (rows desc_b))"
  by (simp add: calcHash_b)
     (simp add: desc_sum_def hash_state_b_def adjust_desc_def desc_b_def env_b_def Hash_def
        float_of_nat_def upt_conv_Cons)

text \<open>
  C3, amended: when the matrix has more rows than \<^verbatim>\<open>max_desc\<close>, exactly \<^verbatim>\<open>max_desc\<close> rows
  are retained (the rows \<^verbatim>\<open>indices[0], ..., indices[max_desc - 1]\<close> of the shuffled
  index vector), and the sum of a pair \<open>(i, n)\<close> over these rows is divided by the number
  of retained rows, \<^verbatim>\<open>max_desc\<close>. The quotient is read from the returned hash at the
  index \<open>i * n\<close> for every pair that no later pair of the loops overwrites (the product
  \<open>i * n\<close> does not wrap around when the hash has at most \<open>2^32\<close> entries).
\<close>

theorem calcHash_divides_by_retained_rows:
  assumes run: "calcHash env st desc = Inr (h, st')"
    and inv: "hash_inv st"
    and more: "nat (sint (max_desc st)) < rows desc"
    and i: "i < length (basis st')" and n: "n < cols desc"
    and small: "length (basis st') * cols desc \<le> 2 ^ 32"
    and last: "\<forall>i' n'. i' < length (basis st') \<and> n' < cols desc \<and> (i < i' \<or> i' = i \<and> n < n')
                 \<longrightarrow> i' * n' \<noteq> i * n"
  shows "rows (adjust_desc env (length (basis st' ! 0)) desc) = nat (sint (max_desc st)) \<and>
         h ! (i * n) =
           fdiv (foldl (\<lambda>s m. fadd s (fdiv (fadd (fmul (basis st' ! i ! m)
                                   (entry desc (shuffled env (rows desc) m) n)) (Fin 1)) (Fin 2)))
                   (Fin 0) [0..<nat (sint (max_desc st))])
                (float_of_nat (nat (sint (max_desc st))))"
proof -
  define M where "M = nat (sint (max_desc st))"
  define adj where "adj = adjust_desc env (length (basis st' ! 0)) desc"
  from calcHash_result[OF run inv] more
  have inv': "hash_inv st'" and ini: "initialized st'" and md: "max_desc st' = max_desc st"
    and h: "h = project (basis st') (max_desc st') adj"
    by (simp_all add: adj_def)
  from inv' ini md have nn: "0 \<le> sint (max_desc st)"
    and len: "\<forall>v\<in>set (basis st'). length v = M"
    and ne: "length (basis st') = max 1 (unat (num_proj st'))"
    by (simp_all add: hash_inv_def M_def)
  from ne have "basis st' ! 0 \<in> set (basis st')" by (cases "basis st'") auto
  with len have l0: "length (basis st' ! 0) = M" by blast
  have um: "unat (max_desc st) = M" using nn by (simp add: M_def unat_of_nonneg)
  have rows: "rows adj = M" using more by (simp add: adj_def rows_adjust_desc l0 M_def)
  have ent: "entry adj m n = entry desc (shuffled env (rows desc) m) n" for m n
    using more by (simp add: adj_def l0 M_def entry_adjust_desc)
  have cols: "cols adj = cols desc" by (simp add: adj_def cols_adjust_desc)
  have "h ! (i * n) =
          fdiv (desc_sum (basis st' ! i) (max_desc st') adj n) (float_of_nat (rows adj))"
    unfolding h using i n small last by (intro project_last_writer) (simp_all add: cols)
  then show ?thesis
    using rows by (simp add: desc_sum_def md um ent adj_def[symmetric] M_def[symmetric])
qed

theorem calcHash_divides_by_retained_rows_witness:
  "calcHash env_b (Hash 1 1) desc_b = Inr ([Fin 4], hash_state_b 1) \<and> hash_inv (Hash 1 1) \<and>
   nat (sint (max_desc (Hash 1 1))) < rows desc_b \<and>
   0 < length (basis (hash_state_b 1)) \<and> 0 < cols desc_b \<and>
   length (basis (hash_state_b 1)) * cols desc_b \<le> 2 ^ 32 \<and>
   [Fin 4] ! (0 * 0) = fdiv (Fin 4) (float_of_nat 1)"
proof -
  have a: "calcHash env_b (Hash 1 1) desc_b = Inr ([Fin 4], hash_state_b 1)"
    by (simp add: calcHash_b)
  have b: "hash_inv (Hash 1 1)" by (rule hash_inv_Hash)
  have c: "nat (sint (max_desc (Hash 1 1))) < rows desc_b" by (simp add: Hash_def desc_b_def)
  have d: "0 < length (basis (hash_state_b 1))" by (simp add: hash_state_b_def)
  have e: "0 < cols desc_b" by (simp add: desc_b_def)
  have f: "length (basis (hash_state_b 1)) * cols desc_b \<le> 2 ^ 32"
    by (simp add: hash_state_b_def desc_b_def)
  have g: "\<forall>i' n'. i' < length (basis (hash_state_b 1)) \<and> n' < cols desc_b \<and>
             (0 < i' \<or> i' = 0 \<and> 0 < n') \<longrightarrow> i' * n' \<noteq> 0 * 0"
    by (auto simp: hash_state_b_def desc_b_def)
  from calcHash_divides_by_retained_rows[OF a b c d e f g] a b c d e f show ?thesis
    by (simp add: Hash_def hash_state_b_def desc_b_def env_b_def float_of_nat_def upt_conv_Cons)
qed

section \<open>Properties of the matcher\<close>

text \<open>
  The comparison \<^verbatim>\<open><\<close> of floats is a strict order in which NaN is below and above
  nothing.
\<close>

lemma fless_irrefl: "\<not> fless a a"
  by (cases a) auto

lemma fless_trans: "fless a b \<Longrightarrow> fless b c \<Longrightarrow> fless a c"
  by (cases a; cases b; cases c) auto

lemma fless_asym: "fless a b \<Longrightarrow> \<not> fless b a"
  by (cases a; cases b) auto

lemma fless_below: "fless r p \<Longrightarrow> \<not> fless q p \<Longrightarrow> \<not> fless q r"
  by (cases r; cases p; cases q) auto

text \<open>
  The result of \<^verbatim>\<open>std::min_element\<close> is an entry of the map that no entry is below,
  whether or not some similarities are NaN.
\<close>

lemma fold_min:
  fixes p :: "uint \<times> float"
  defines "f \<equiv> (\<lambda>smallest q. if fless (snd q) (snd smallest) then q else smallest)"
  shows "foldl f p ps \<in> set (p # ps) \<and>
         (foldl f p ps = p \<or> fless (snd (foldl f p ps)) (snd p)) \<and>
         (\<forall>q\<in>set ps. \<not> fless (snd q) (snd (foldl f p ps)))"
proof (induction ps arbitrary: p)
  case Nil
  then show ?case by simp
next
  case (Cons q ps)
  define p' where "p' = f p q"
  define r where "r = foldl f p' ps"
  from Cons.IH[of p'] have mem: "r \<in> set (p' # ps)"
    and below: "r = p' \<or> fless (snd r) (snd p')"
    and least: "\<forall>q\<in>set ps. \<not> fless (snd q) (snd r)"
    by (simp_all add: r_def)
  have fr: "foldl f p (q # ps) = r" by (simp add: r_def p'_def)
  show ?case
  proof (cases "fless (snd q) (snd p)")
    case True
    then have p': "p' = q" by (simp add: p'_def f_def)
    from below p' True have "fless (snd r) (snd p)"
      by (auto intro: fless_trans)
    moreover from below p' have "\<not> fless (snd q) (snd r)"
      by (auto simp: fless_irrefl dest: fless_asym)
    ultimately show ?thesis using mem least p' unfolding fr by auto
  next
    case False
    then have p': "p' = p" by (simp add: p'_def f_def)
    from below p' False have "\<not> fless (snd q) (snd r)"
      by (auto dest: fless_below)
    then show ?thesis using mem least below p' unfolding fr by auto
  qed
qed

lemma min_element_in: "sims \<noteq> [] \<Longrightarrow> min_element sims \<in> set sims"
  using fold_min by (cases sims) auto

lemma min_element_least:
  "q \<in> set sims \<Longrightarrow> \<not> fless (snd q) (snd (min_element sims))"
proof (cases sims)
  case Nil
  assume "q \<in> set sims"
  with Nil show ?thesis by simp
next
  case (Cons p ps)
  assume q: "q \<in> set sims"
  from fold_min[of p ps] have a: "min_element sims = p \<or> fless (snd (min_element sims)) (snd p)"
    and b: "\<forall>q\<in>set ps. \<not> fless (snd q) (snd (min_element sims))"
    by (simp_all add: Cons)
  from a have "\<not> fless (snd p) (snd (min_element sims))"
    by (auto simp: fless_irrefl dest: fless_asym)
  with b q Cons show ?thesis by auto
qed


text \<open>The loop of \<^verbatim>\<open>getBestCandidates\<close>: the length, the members and the order of its result.\<close>

declare getBestCandidates_loop.simps [simp del]

lemma loop_length:
  "length (getBestCandidates_loop bound sims cands) =
     (if length cands < bound then min bound (length cands + length sims) else length cands)"
proof (induction bound sims cands rule: getBestCandidates_loop.induct)
  case (1 bound sims cands)
  show ?case
  proof (cases "length cands < bound \<and> sims \<noteq> []")
    case True
    then have m: "min_element sims \<in> set sims" by (simp add: min_element_in)
    then have l: "length (remove1 (min_element sims) sims) = length sims - 1"
      by (simp add: length_remove1)
    from True obtain k where k: "length sims = Suc k" by (cases sims) auto
    show ?thesis
      using "1.IH"[OF True refl] True l k
      by (subst getBestCandidates_loop.simps) (auto simp: Let_def)
  next
    case False
    then show ?thesis
      by (subst getBestCandidates_loop.simps) auto
  qed
qed

lemma loop_set:
  "set (getBestCandidates_loop bound sims cands) \<subseteq> set cands \<union> fst ` set sims"
proof (induction bound sims cands rule: getBestCandidates_loop.induct)
  case (1 bound sims cands)
  show ?case
  proof (cases "length cands < bound \<and> sims \<noteq> []")
    case True
    then have m: "min_element sims \<in> set sims" by (simp add: min_element_in)
    have "set (remove1 (min_element sims) sims) \<subseteq> set sims" by (rule set_remove1_subset)
    then show ?thesis
      using "1.IH"[OF True refl] True m
      by (subst getBestCandidates_loop.simps) (auto simp: Let_def)
  next
    case False
    then show ?thesis
      by (subst getBestCandidates_loop.simps) auto
  qed
qed

lemma loop_sorted:
  assumes "\<forall>p\<in>set sims. snd p = val (fst p)"
    and "sorted_wrt (\<lambda>j k. \<not> fless (val k) (val j)) cands"
    and "\<forall>j\<in>set cands. \<forall>p\<in>set sims. \<not> fless (snd p) (val j)"
  shows "sorted_wrt (\<lambda>j k. \<not> fless (val k) (val j)) (getBestCandidates_loop bound sims cands)"
  using assms
proof (induction bound sims cands rule: getBestCandidates_loop.induct)
  case (1 bound sims cands)
  show ?case
  proof (cases "length cands < bound \<and> sims \<noteq> []")
    case True
    define m where "m = min_element sims"
    from True have mem: "m \<in> set sims" by (simp add: m_def min_element_in)
    have sub: "set (remove1 m sims) \<subseteq> set sims" by (rule set_remove1_subset)
    have a: "\<forall>p\<in>set (remove1 m sims). snd p = val (fst p)"
      using "1.prems"(1) sub by blast
    have vm: "val (fst m) = snd m" using "1.prems"(1) mem by simp
    have b: "sorted_wrt (\<lambda>j k. \<not> fless (val k) (val j)) (cands @ [fst m])"
      using "1.prems"(2,3) mem by (auto simp: sorted_wrt_append vm)
    have c: "\<forall>j\<in>set (cands @ [fst m]). \<forall>p\<in>set (remove1 m sims). \<not> fless (snd p) (val j)"
    proof (intro ballI)
      fix j p
      assume j: "j \<in> set (cands @ [fst m])" and p: "p \<in> set (remove1 m sims)"
      from p sub have ps: "p \<in> set sims" by blast
      show "\<not> fless (snd p) (val j)"
      proof (cases "j \<in> set cands")
        case True
        with "1.prems"(3) ps show ?thesis by blast
      next
        case False
        with j have "j = fst m" by simp
        with min_element_least[OF ps] vm show ?thesis by (simp add: m_def)
      qed
    qed
    show ?thesis
      using "1.IH"[OF True m_def a b c] True
      by (subst getBestCandidates_loop.simps) (simp add: Let_def m_def)
  next
    case False
    then show ?thesis
      using "1.prems"(2) by (subst getBestCandidates_loop.simps) auto
  qed
qed


text \<open>The assignment \<^verbatim>\<open>m[k] = v\<close>.\<close>

lemma map_assign_append: "\<forall>p\<in>set m. fst p < k \<Longrightarrow> map_assign k v m = m @ [(k, v)]"
  by (induction m) auto

lemma map_of_map_assign_same: "map_of (map_assign k v m) k = Some v"
  by (induction m) auto

lemma map_of_map_assign_other: "j \<noteq> k \<Longrightarrow> map_of (map_assign k v m) j = map_of m j"
  by (induction m) auto

lemma map_assign_keys_twice:
  "map fst (map_assign k w (map_assign k v m)) = map fst (map_assign k v m)"
  by (induction m) auto

lemma set_map_assign: "set (map_assign k v m) \<subseteq> insert (k, v) (set m)"
  by (induction m) auto

lemma keys_map_assign: "fst ` set (map_assign k v m) = insert k (fst ` set m)"
  by (induction m) auto

lemma wf_map_assign: "wf_map m \<Longrightarrow> wf_map (map_assign k v m)"
  unfolding wf_map_def
proof (induction m)
  case Nil
  then show ?case by simp
next
  case (Cons p m)
  then have IH: "sorted_wrt (<) (map fst (map_assign k v m))" by simp
  from Cons.prems have gt: "\<forall>q\<in>set m. fst p < fst q" by simp
  show ?case
  proof (cases "fst p = k")
    case True
    with Cons.prems show ?thesis by simp
  next
    case False
    show ?thesis
    proof (cases "k < fst p")
      case True
      with False Cons.prems show ?thesis by auto
    next
      case ge: False
      with False have "fst p < k" by simp
      with gt have "\<forall>q\<in>set (map_assign k v m). fst p < fst q"
        using set_map_assign[of k v m] by auto
      with False ge IH show ?thesis by simp
    qed
  qed
qed

lemma wf_map_distinct: "wf_map m \<Longrightarrow> distinct (map fst m)"
  unfolding wf_map_def by (induction m) auto

lemma wf_map_of: "wf_map m \<Longrightarrow> p \<in> set m \<Longrightarrow> map_of m (fst p) = Some (snd p)"
  using wf_map_distinct[of m] by simp

text \<open>At most \<open>2^32\<close> entries have different 32-bit keys.\<close>

lemma wf_map_length: "wf_map (m :: (uint \<times> 'v) list) \<Longrightarrow> length m \<le> 2 ^ 32"
proof -
  assume "wf_map m"
  then have "distinct (map fst m)" by (rule wf_map_distinct)
  then have "length m = card (set (map fst m))"
    using distinct_card[of "map fst m"] by simp
  also have "\<dots> \<le> card (UNIV :: uint set)"
    by (rule card_mono) simp_all
  also have "\<dots> = 2 ^ 32" by (simp add: card_word)
  finally show ?thesis .
qed

text \<open>
  On a table with ascending keys every new similarity is appended, so the similarities
  are those of the entries that pass the two tests, in the order of the table.
\<close>

lemma calcSimilarities_fold:
  assumes "sorted_wrt (<) (map fst table)"
    and "\<forall>a\<in>set acc. \<forall>p\<in>set table. fst a < fst p"
  shows "foldl (\<lambda>similarities hash_pair.
              if fst hash_pair \<in> ign then similarities
              else let similarity = calcSimilarity hash (snd hash_pair)
                   in if fle similarity (Fin 0) then similarities
                      else map_assign (fst hash_pair) similarity similarities)
           acc table
         = acc @ map (\<lambda>p. (fst p, calcSimilarity hash (snd p)))
                   (filter (\<lambda>p. fst p \<notin> ign \<and> \<not> fle (calcSimilarity hash (snd p)) (Fin 0)) table)"
  using assms
proof (induction table arbitrary: acc)
  case Nil
  then show ?case by simp
next
  case (Cons p table)
  from Cons.prems have st: "sorted_wrt (<) (map fst table)"
    and gt: "\<forall>q\<in>set table. fst p < fst q"
    and acc: "\<forall>a\<in>set acc. fst a < fst p" "\<forall>a\<in>set acc. \<forall>q\<in>set table. fst a < fst q"
    by auto
  show ?case
  proof (cases "fst p \<notin> ign \<and> \<not> fle (calcSimilarity hash (snd p)) (Fin 0)")
    case True
    have app: "map_assign (fst p) (calcSimilarity hash (snd p)) acc
                 = acc @ [(fst p, calcSimilarity hash (snd p))]"
      using acc(1) by (rule map_assign_append)
    have "\<forall>a\<in>set (acc @ [(fst p, calcSimilarity hash (snd p))]). \<forall>q\<in>set table. fst a < fst q"
      using acc(2) gt by auto
    from Cons.IH[OF st this] True app show ?thesis by (simp add: Let_def)
  next
    case False
    with Cons.IH[OF st acc(2)] show ?thesis by (auto simp: Let_def)
  qed
qed

lemma calcSimilarities_wf:
  "wf_map table \<Longrightarrow>
   calcSimilarities table hash ign =
     map (\<lambda>p. (fst p, calcSimilarity hash (snd p)))
       (filter (\<lambda>p. fst p \<notin> ign \<and> \<not> fle (calcSimilarity hash (snd p)) (Fin 0)) table)"
  unfolding calcSimilarities_def wf_map_def
  using calcSimilarities_fold[of table "[]" ign hash] by simp


text \<open>
  The bound of the loop: an \<^verbatim>\<open>int\<close> from 0 on keeps its value as a \<^verbatim>\<open>size_t\<close>, a negative
  one becomes a value above every possible number of entries.
\<close>

lemma size_t_of_int_nonneg: "0 \<le> sint k \<Longrightarrow> size_t_of_int k = nat (sint k)"
proof -
  assume a: "0 \<le> sint k"
  have "sint k < 2 ^ 31" using sint_lt[of k] by simp
  then have "sint k < 2 ^ 64" by simp
  with a show ?thesis by (simp add: size_t_of_int_def)
qed

lemma size_t_of_int_neg: "sint k < 0 \<Longrightarrow> 2 ^ 32 \<le> size_t_of_int k"
proof -
  assume a: "sint k < 0"
  have b: "- (2 ^ 31) \<le> sint k" using sint_ge[of k] by simp
  have "(sint k + 2 ^ 64) mod 2 ^ 64 = sint k + 2 ^ 64"
    using a b by (intro mod_pos_pos_trivial) simp_all
  moreover have "(sint k + 2 ^ 64) mod 2 ^ 64 = sint k mod 2 ^ 64"
    by simp
  ultimately have "sint k mod 2 ^ 64 = sint k + 2 ^ 64" by simp
  then show ?thesis using b by (simp add: size_t_of_int_def)
qed

lemma process_Some:
  assumes "process env st image_id img nc ign = Inr (Some cs, st')"
  shows "\<exists>hash hs. \<not> mat_empty img \<and>
           calcHash env (hash_obj st) (calcDesc env img) = Inr (hash, hs) \<and> hash \<noteq> [] \<and>
           hashes_table st' = map_assign image_id hash (hashes_table st) \<and> hash_obj st' = hs \<and>
           cs = getBestCandidates (calcSimilarities (hashes_table st') hash ign) nc \<and> cs \<noteq> []"
  using assms
  by (auto simp: process_def Let_def split: if_splits sum.splits prod.splits)

lemma similarity_to_stored:
  assumes "wf_map table" and "map_of table image_id = Some hash" and "p \<in> set table"
    and "hashes_table st = table"
  shows "similarity_to st image_id (fst p) = calcSimilarity hash (snd p)"
  using assms wf_map_of[of table p] by (simp add: similarity_to_def)

lemma eligible_filter:
  assumes "wf_map (hashes_table st)" and "map_of (hashes_table st) image_id = Some hash"
  shows "eligible st image_id ign =
           map fst (filter (\<lambda>p. fst p \<notin> ign \<and> \<not> fle (calcSimilarity hash (snd p)) (Fin 0))
                      (hashes_table st))"
proof -
  have "filter ((\<lambda>k. k \<notin> ign \<and> \<not> fle (similarity_to st image_id k) (Fin 0)) \<circ> fst) (hashes_table st)
        = filter (\<lambda>p. fst p \<notin> ign \<and> \<not> fle (calcSimilarity hash (snd p)) (Fin 0)) (hashes_table st)"
    using similarity_to_stored[OF assms(1,2) _ refl] by (intro filter_cong) auto
  then show ?thesis by (simp add: eligible_def filter_map)
qed

text \<open>
  The candidates of a call that returns a list: their order and their number.
\<close>

lemma candidates_sorted_length:
  assumes run: "process env st image_id img nc ign = Inr (Some cs, st')"
    and wf: "wf_map (hashes_table st)"
  shows "sorted_wrt (\<lambda>j k. \<not> fless (similarity_to st' image_id k) (similarity_to st' image_id j)) cs \<and>
         length cs = (if sint nc < 0 then length (eligible st' image_id ign)
                      else min (nat (sint nc)) (length (eligible st' image_id ign)))"
proof -
  from process_Some[OF run] obtain hash where
    tab: "hashes_table st' = map_assign image_id hash (hashes_table st)"
    and cs: "cs = getBestCandidates (calcSimilarities (hashes_table st') hash ign) nc"
    by blast
  define table where "table = hashes_table st'"
  define sims where "sims = calcSimilarities table hash ign"
  have wf': "wf_map table" using wf by (simp add: table_def tab wf_map_assign)
  have own: "map_of table image_id = Some hash"
    by (simp add: table_def tab map_of_map_assign_same)
  have sims_eq: "sims = map (\<lambda>p. (fst p, calcSimilarity hash (snd p)))
       (filter (\<lambda>p. fst p \<notin> ign \<and> \<not> fle (calcSimilarity hash (snd p)) (Fin 0)) table)"
    unfolding sims_def using wf' by (rule calcSimilarities_wf)
  have val: "\<forall>p\<in>set sims. snd p = similarity_to st' image_id (fst p)"
    using similarity_to_stored[OF wf' own _ table_def[symmetric]] by (auto simp: sims_eq)
  have sorted: "sorted_wrt (\<lambda>j k. \<not> fless (similarity_to st' image_id k) (similarity_to st' image_id j)) cs"
    unfolding cs getBestCandidates_def table_def[symmetric] sims_def[symmetric]
    using val by (intro loop_sorted) simp_all
  have el: "length (eligible st' image_id ign) = length sims"
    using eligible_filter[of st' image_id hash ign] wf' own
    by (simp add: table_def sims_eq)
  have le: "length sims \<le> 2 ^ 32"
    using wf_map_length[OF wf'] by (simp add: sims_eq) (meson le_trans length_filter_le)
  have len: "length cs = min (size_t_of_int nc) (length sims)"
    unfolding cs getBestCandidates_def table_def[symmetric] sims_def[symmetric]
    by (simp add: loop_length)
  have "length cs = (if sint nc < 0 then length sims else min (nat (sint nc)) (length sims))"
  proof (cases "sint nc < 0")
    case True
    from size_t_of_int_neg[OF True] le len True show ?thesis by simp
  next
    case False
    then have "size_t_of_int nc = nat (sint nc)" by (simp add: size_t_of_int_nonneg)
    with len False show ?thesis by simp
  qed
  with sorted el show ?thesis by simp
qed

section \<open>Properties of process\<close>

lemma process_stored:
  assumes "\<not> mat_empty img"
    and "calcHash env (hash_obj st) (calcDesc env img) = Inr (h, hs)" and "h \<noteq> []"
    and "process env st image_id img nc ign = Inr (res, st')"
  shows "hashes_table st' = map_assign image_id h (hashes_table st) \<and> hash_obj st' = hs"
  using assms by (auto simp: process_def Let_def split: if_splits)

lemma process_returns:
  assumes "calcHash env (hash_obj st) (calcDesc env img) = Inr (h, hs)"
  shows "\<exists>res st'. process env st image_id img nc ign = Inr (res, st')"
  using assms by (simp add: process_def Let_def)

text \<open>
  The states that the calls of \<^verbatim>\<open>process\<close> reach from a new \<^verbatim>\<open>Haloc\<close> object keep the
  invariants of the table and of the \<^verbatim>\<open>Hash\<close> object.
\<close>

lemma invariants_Haloc:
  "wf_map (hashes_table (Haloc np md)) \<and> hash_inv (hash_obj (Haloc np md))"
  by (simp add: Haloc_def wf_map_def hash_inv_def Hash_def)

lemma invariants_process:
  assumes "process env st image_id img nc ign = Inr (res, st')"
    and "wf_map (hashes_table st)" and "hash_inv (hash_obj st)"
  shows "wf_map (hashes_table st') \<and> hash_inv (hash_obj st')"
proof (cases "mat_empty img")
  case True
  with assms show ?thesis by (simp add: process_def)
next
  case False
  with assms(1) obtain h hs where
    c: "calcHash env (hash_obj st) (calcDesc env img) = Inr (h, hs)"
    by (auto simp: process_def split: sum.splits)
  from calcHash_result[OF c assms(3)] have inv: "hash_inv hs" by simp
  show ?thesis
  proof (cases "h = []")
    case True
    with assms(1,2) False c inv show ?thesis by (auto simp: process_def)
  next
    case ne: False
    from process_stored[OF False c ne assms(1)] assms(2) inv show ?thesis
      by (simp add: wf_map_assign)
  qed
qed

text \<open>
  Every candidate is a stored id that is not ignored and whose hash has a similarity
  to the new hash that is not \<^verbatim>\<open><= 0\<close>.
\<close>

lemma candidates_stored:
  assumes run: "process env st image_id img nc ign = Inr (Some cs, st')"
    and wf: "wf_map (hashes_table st)" and k: "k \<in> set cs"
  shows "\<exists>hash h. map_of (hashes_table st') image_id = Some hash \<and>
           map_of (hashes_table st') k = Some h \<and> k \<notin> ign \<and>
           \<not> fle (calcSimilarity hash h) (Fin 0)"
proof -
  from process_Some[OF run] obtain hash where
    tab: "hashes_table st' = map_assign image_id hash (hashes_table st)"
    and cs: "cs = getBestCandidates (calcSimilarities (hashes_table st') hash ign) nc"
    by blast
  have wf': "wf_map (hashes_table st')" using wf by (simp add: tab wf_map_assign)
  have own: "map_of (hashes_table st') image_id = Some hash"
    by (simp add: tab map_of_map_assign_same)
  from k have "k \<in> fst ` set (calcSimilarities (hashes_table st') hash ign)"
    unfolding cs getBestCandidates_def using loop_set by fastforce
  then obtain p where p: "p \<in> set (hashes_table st')" "fst p = k" "k \<notin> ign"
    "\<not> fle (calcSimilarity hash (snd p)) (Fin 0)"
    by (auto simp: calcSimilarities_wf[OF wf'])
  with wf_map_of[OF wf' p(1)] own show ?thesis by auto
qed

text \<open>
  Among hashes with finite entries no similarity is NaN: the order of the candidates is
  the order \<^verbatim>\<open><=\<close> of their similarities, and the eligible ids are the ids with a
  positive similarity.
\<close>

lemma similarity_to_not_NaN:
  assumes wf: "wf_map (hashes_table st)"
    and own: "map_of (hashes_table st) image_id = Some hash"
    and fin: "\<forall>p\<in>set (hashes_table st). list_all is_Fin (snd p)"
    and k: "k \<in> fst ` set (hashes_table st)"
  shows "similarity_to st image_id k \<noteq> NaN"
proof -
  from k obtain p where p: "p \<in> set (hashes_table st)" "fst p = k" by auto
  from own have "(image_id, hash) \<in> set (hashes_table st)" by (rule map_of_SomeD)
  with fin p(1) have "list_all is_Fin hash" "list_all is_Fin (snd p)" by auto
  then have "calcSimilarity hash (snd p) \<noteq> NaN" by (rule calcSimilarity_not_NaN)
  with similarity_to_stored[OF wf own p(1) refl] p(2) show ?thesis by simp
qed

lemma candidates_sorted_finite:
  assumes run: "process env st image_id img nc ign = Inr (Some cs, st')"
    and wf: "wf_map (hashes_table st)"
    and fin: "\<forall>p\<in>set (hashes_table st'). list_all is_Fin (snd p)"
  shows "sorted_wrt (\<lambda>j k. fle (similarity_to st' image_id j) (similarity_to st' image_id k)) cs"
proof -
  from process_Some[OF run] obtain hash where
    tab: "hashes_table st' = map_assign image_id hash (hashes_table st)"
    by blast
  have wf': "wf_map (hashes_table st')" using wf by (simp add: tab wf_map_assign)
  have own: "map_of (hashes_table st') image_id = Some hash"
    by (simp add: tab map_of_map_assign_same)
  have no_nan: "similarity_to st' image_id k \<noteq> NaN" if "k \<in> set cs" for k
  proof -
    from candidates_stored[OF run wf that] obtain h where
      "map_of (hashes_table st') k = Some h"
      by blast
    then have "(k, h) \<in> set (hashes_table st')" by (rule map_of_SomeD)
    then have "k \<in> fst ` set (hashes_table st')" by force
    with similarity_to_not_NaN[OF wf' own fin] show ?thesis by blast
  qed
  have "sorted_wrt (\<lambda>j k. \<not> fless (similarity_to st' image_id k) (similarity_to st' image_id j)) cs"
    using candidates_sorted_length[OF run wf] by simp
  then show ?thesis
    by (rule sorted_wrt_mono_rel[rotated]) (simp add: fle_total no_nan)
qed

lemma positive_ids_eligible:
  assumes wf: "wf_map (hashes_table st)"
    and own: "map_of (hashes_table st) image_id = Some hash"
    and fin: "\<forall>p\<in>set (hashes_table st). list_all is_Fin (snd p)"
  shows "positive_ids st image_id ign = eligible st image_id ign"
  unfolding positive_ids_def eligible_def
  using similarity_to_not_NaN[OF wf own fin]
  by (intro filter_cong) (auto simp: positive_iff)

lemma candidates_finite:
  assumes run: "process env st image_id img nc ign = Inr (Some cs, st')"
    and wf: "wf_map (hashes_table st)"
    and nn: "0 \<le> sint nc"
    and fin: "\<forall>p\<in>set (hashes_table st'). list_all is_Fin (snd p)"
  shows "sorted_wrt (\<lambda>j k. fle (similarity_to st' image_id j) (similarity_to st' image_id k)) cs \<and>
         length cs = min (nat (sint nc)) (length (positive_ids st' image_id ign))"
proof -
  from process_Some[OF run] obtain hash where
    tab: "hashes_table st' = map_assign image_id hash (hashes_table st)"
    by blast
  have wf': "wf_map (hashes_table st')" using wf by (simp add: tab wf_map_assign)
  have own: "map_of (hashes_table st') image_id = Some hash"
    by (simp add: tab map_of_map_assign_same)
  have "length cs = min (nat (sint nc)) (length (eligible st' image_id ign))"
    using candidates_sorted_length[OF run wf] nn by simp
  with positive_ids_eligible[OF wf' own fin] candidates_sorted_finite[OF run wf fin]
  show ?thesis by simp
qed

text \<open>The calls on the concrete inputs.\<close>

lemma calcHash_px:
  "calcHash env_b (hash_state_b 1) (calcDesc env_b (img_px p))
     = Inr ([Fin ((real (unat p) + 1) / 2)], hash_state_b 1)"
  by (simp add: calcHash_def calcDesc_def env_b_def img_px_def hash_state_b_def adjust_desc_def
      project_def desc_sum_def float_of_nat_def upt_conv_Cons)

lemma calcHash_px_fresh:
  "calcHash env_b (Hash 1 1) (calcDesc env_b (img_px p))
     = Inr ([Fin ((real (unat p) + 1) / 2)], hash_state_b 1)"
  apply (simp add: calcHash_def Hash_def init_def initProjections_b hash_state_b_def)
  apply (simp add: calcDesc_def env_b_def img_px_def adjust_desc_def
      project_def desc_sum_def float_of_nat_def upt_conv_Cons)
  done

lemma initProjections_n: "initProjections env 1 0 = Inr [[]]"
  by (simp add: initProjections_def computeRandomVector_def unitVector_def upt_conv_Cons)

lemma calcHash_nan_fresh:
  "calcHash env_b (Hash 1 0) (calcDesc env_b (img_px p))
     = Inr ([NaN], \<lparr>initialized = True, num_proj = 1, max_desc = 0, basis = [[]]\<rparr>)"
  apply (simp add: calcHash_def Hash_def init_def initProjections_n)
  apply (simp add: calcDesc_def env_b_def img_px_def adjust_desc_def
      project_def desc_sum_def float_of_nat_def upt_conv_Cons)
  done

lemma calcHash_nan:
  "calcHash env_b \<lparr>initialized = True, num_proj = 1, max_desc = 0, basis = [[]]\<rparr>
       (calcDesc env_b (img_px p))
     = Inr ([NaN], \<lparr>initialized = True, num_proj = 1, max_desc = 0, basis = [[]]\<rparr>)"
  by (simp add: calcHash_def calcDesc_def env_b_def img_px_def adjust_desc_def
      project_def desc_sum_def float_of_nat_def upt_conv_Cons)

lemma img_px_not_empty: "\<not> mat_empty (img_px p)"
  by (simp add: mat_empty_def img_px_def)

lemmas process_eval = process_def img_px_not_empty Let_def calcSimilarities_def
  calcSimilarity_def fsub_def getBestCandidates_def size_t_of_int_def
  getBestCandidates_loop.simps upt_conv_Cons haloc_store_def

lemma process_first:
  "process env_b (Haloc 1 1) 1 (img_px 1) 1 {} = Inr (None, haloc_store [(1, [Fin 1])])"
  by (simp add: process_eval calcHash_px_fresh Haloc_def)

lemma process_second:
  "process env_b (haloc_store [(1, [Fin 1])]) 2 (img_px 3) 1 {}
     = Inr (Some [1], haloc_store [(1, [Fin 1]), (2, [Fin 2])])"
  by (simp add: process_eval calcHash_px)

lemma process_third:
  "process env_b (haloc_store [(1, [Fin 1]), (2, [Fin 2])]) 3 (img_px 7) 1 {}
     = Inr (Some [2], haloc_store table_123)"
  by (simp add: process_eval calcHash_px table_123_def)

lemma process_fourth:
  "process env_b (haloc_store table_123) 4 (img_px 3) 1 {}
     = Inr (Some [1], haloc_store (table_123 @ [(4, [Fin 2])]))"
  by (simp add: process_eval calcHash_px table_123_def)

lemma process_fourth_two:
  "process env_b (haloc_store table_123) 4 (img_px 3) 2 {}
     = Inr (Some [1, 3], haloc_store (table_123 @ [(4, [Fin 2])]))"
  by (simp add: process_eval calcHash_px table_123_def)

lemma process_fourth_again:
  "process env_b (haloc_store (table_123 @ [(4, [Fin 2])])) 4 (img_px 7) 1 {}
     = Inr (Some [2], haloc_store (table_123 @ [(4, [Fin 4])]))"
  by (simp add: process_eval calcHash_px table_123_def)

lemma process_nan_first:
  "process env_b (Haloc 1 0) 1 (img_px 3) 1 {} = Inr (Some [1], haloc_nan [(1, [NaN])])"
  by (simp add: process_eval calcHash_nan_fresh Haloc_def haloc_nan_def)

lemma process_nan_second:
  "process env_b (haloc_nan [(1, [NaN])]) 2 (img_px 7) 5 {}
     = Inr (Some [1, 2], haloc_nan [(1, [NaN]), (2, [NaN])])"
  by (simp add: process_eval calcHash_nan haloc_nan_def)

lemma wf_table_123: "wf_map (hashes_table (haloc_store table_123))"
  by (simp add: wf_map_def haloc_store_def table_123_def)

text \<open>
  C4, as stated: for hashes of equal length the result is the Euclidean distance, which
  is not negative. This fails when an entry is not finite. With \<^verbatim>\<open>max_desc = 0\<close> the hash
  that \<^verbatim>\<open>calcHash\<close> returns is \<open>(NaN)\<close>; the similarity of two such hashes is
  \<^verbatim>\<open>sqrt(pow(NaN - NaN, 2.0))\<close>, which is NaN: no distance, and neither below zero nor
  \<^verbatim>\<open>>= 0\<close>.
\<close>

theorem calcSimilarity_distance_counterexample:
  "calcHash env_b (Hash 1 0) (calcDesc env_b (img_px 3))
     = Inr ([NaN], \<lparr>initialized = True, num_proj = 1, max_desc = 0, basis = [[]]\<rparr>) \<and>
   length [NaN] = length [NaN] \<and>
   calcSimilarity [NaN] [NaN] = NaN \<and>
   \<not> fle (Fin 0) (calcSimilarity [NaN] [NaN]) \<and>
   \<not> fless (calcSimilarity [NaN] [NaN]) (Fin 0)"
  by (simp add: calcHash_nan_fresh) (simp add: calcSimilarity_def fsub_def upt_conv_Cons)

text \<open>
  C5, as stated: every returned list is in non-decreasing order of similarity, and its
  length is the minimum of \<^verbatim>\<open>num_candidates\<close> and the number of the ids that are not
  ignored and have a positive similarity. This fails when a similarity is NaN, which is
  not positive and is in no order, but passes the test \<^verbatim>\<open>similarity <= 0.0\<close> of the code.
  With \<^verbatim>\<open>max_desc = 0\<close> every hash starts with \<open>0 / 0\<close>: the second call returns two ids,
  their similarities are NaN and so not in the order \<^verbatim>\<open><=\<close>, and no id has a positive
  similarity.
\<close>

theorem process_candidates_length_counterexample:
  "process env_b (Haloc 1 0) 1 (img_px 3) 1 {} = Inr (Some [1], haloc_nan [(1, [NaN])]) \<and>
   process env_b (haloc_nan [(1, [NaN])]) 2 (img_px 7) 5 {}
     = Inr (Some [1, 2], haloc_nan [(1, [NaN]), (2, [NaN])]) \<and>
   0 \<le> sint (5 :: cint) \<and>
   similarity_to (haloc_nan [(1, [NaN]), (2, [NaN])]) 2 1 = NaN \<and>
   similarity_to (haloc_nan [(1, [NaN]), (2, [NaN])]) 2 2 = NaN \<and>
   \<not> fle (similarity_to (haloc_nan [(1, [NaN]), (2, [NaN])]) 2 1)
          (similarity_to (haloc_nan [(1, [NaN]), (2, [NaN])]) 2 2) \<and>
   positive_ids (haloc_nan [(1, [NaN]), (2, [NaN])]) 2 {} = [] \<and>
   length [1, 2 :: uint] \<noteq> min (nat (sint (5 :: cint))) (length ([] :: uint list))"
  by (simp add: process_nan_first process_nan_second)
     (simp add: positive_ids_def similarity_to_def haloc_nan_def
        calcSimilarity_def fsub_def upt_conv_Cons)

text \<open>
  C5, amended. For every call of \<^verbatim>\<open>process\<close> with a \<^verbatim>\<open>num_candidates\<close> that is not
  negative (the interface asks for a non-negative number) that returns a list: when
  the hashes in the table, the new one included, have finite entries, the list is in
  non-decreasing order of similarity to the new hash, closest first, and its length is
  the minimum of \<^verbatim>\<open>num_candidates\<close> and the number of the eligible ids, the stored ids
  that are not ignored and have a positive similarity. The table is a \<^verbatim>\<open>std::map\<close>, so
  its keys ascend.
\<close>

theorem process_candidates_sorted:
  assumes "process env st image_id img nc ign = Inr (Some cs, st')"
    and "wf_map (hashes_table st)"
    and "0 \<le> sint nc"
    and "\<forall>p\<in>set (hashes_table st'). list_all is_Fin (snd p)"
  shows "sorted_wrt (\<lambda>j k. fle (similarity_to st' image_id j) (similarity_to st' image_id k)) cs \<and>
         length cs = min (nat (sint nc)) (length (positive_ids st' image_id ign))"
  using assms by (rule candidates_finite)

theorem process_candidates_sorted_witness:
  "process env_b (haloc_store table_123) 4 (img_px 3) 2 {}
     = Inr (Some [1, 3], haloc_store (table_123 @ [(4, [Fin 2])])) \<and>
   wf_map (hashes_table (haloc_store table_123)) \<and> 0 \<le> sint (2 :: cint) \<and>
   list_all is_Fin [Fin 1] \<and> list_all is_Fin [Fin 2] \<and> list_all is_Fin [Fin 4] \<and>
   fle (similarity_to (haloc_store (table_123 @ [(4, [Fin 2])])) 4 1)
       (similarity_to (haloc_store (table_123 @ [(4, [Fin 2])])) 4 3) \<and>
   length [1, 3 :: uint]
     = min 2 (length (positive_ids (haloc_store (table_123 @ [(4, [Fin 2])])) 4 {}))"
proof -
  have nn: "0 \<le> sint (2 :: cint)" by simp
  have fin: "\<forall>p\<in>set (hashes_table (haloc_store (table_123 @ [(4, [Fin 2])]))).
               list_all is_Fin (snd p)"
    by (simp add: haloc_store_def table_123_def)
  from process_candidates_sorted[OF process_fourth_two wf_table_123 nn fin]
    process_fourth_two wf_table_123
  show ?thesis by simp
qed

text \<open>
  C6. For every state, \<^verbatim>\<open>process\<close> with an empty image returns \<^verbatim>\<open>std::nullopt\<close> and
  leaves the state, the table of the hashes included, as it was.
\<close>

theorem process_empty_image:
  "mat_empty img \<Longrightarrow> process env st image_id img nc ign = Inr (None, st)"
  by (simp add: process_def)

theorem process_empty_image_witness:
  "mat_empty img_none \<and>
   process env_b (haloc_store table_123) 4 img_none 1 {} = Inr (None, haloc_store table_123)"
proof -
  have e: "mat_empty img_none" by (simp add: mat_empty_def img_none_def)
  from process_empty_image[OF e] e show ?thesis by simp
qed

text \<open>
  C7, as stated: with the ids 1, 2 and 3 in the store, an image with the descriptors of
  the id 2 and \<^verbatim>\<open>num_candidates = 1\<close> gives the list \<open>[2]\<close>. This fails: the store is
  built from the pixels 1, 3 and 7, the fourth image has the pixel 3 again, its hash is
  that of the id 2, the similarity 0 of the id 2 is dropped by the test
  \<^verbatim>\<open>similarity <= 0.0\<close>, and the result is \<open>[1]\<close>.
\<close>

theorem process_identical_descriptors_counterexample:
  "process env_b (Haloc 1 1) 1 (img_px 1) 1 {} = Inr (None, haloc_store [(1, [Fin 1])]) \<and>
   process env_b (haloc_store [(1, [Fin 1])]) 2 (img_px 3) 1 {}
     = Inr (Some [1], haloc_store [(1, [Fin 1]), (2, [Fin 2])]) \<and>
   process env_b (haloc_store [(1, [Fin 1]), (2, [Fin 2])]) 3 (img_px 7) 1 {}
     = Inr (Some [2], haloc_store table_123) \<and>
   map fst (hashes_table (haloc_store table_123)) = [1, 2, 3] \<and>
   process env_b (haloc_store table_123) 4 (img_px 3) 1 {}
     = Inr (Some [1], haloc_store (table_123 @ [(4, [Fin 2])])) \<and>
   Some [1 :: uint] \<noteq> Some [2]"
  by (simp add: process_first process_second process_third process_fourth)
     (simp add: haloc_store_def table_123_def)

text \<open>
  C7, amended. If the store holds hashes for the ids 1, 2 and 3 and the hash of the new
  image is the hash stored for the id 2, with finite entries, then \<^verbatim>\<open>process\<close> with
  \<^verbatim>\<open>num_candidates = 1\<close> and an empty ignore set returns, and it never returns \<open>[2]\<close>: the
  id 2 has the similarity 0 and is dropped. The result is absent, or it is the list of
  one of the ids 1 and 3, other than the id of the new image.
\<close>

theorem process_identical_descriptors:
  assumes keys: "map fst (hashes_table st) = [1, 2, 3]"
    and stored: "map_of (hashes_table st) 2 = Some h"
    and same: "calcHash env (hash_obj st) (calcDesc env img) = Inr (h, hs)"
    and fin: "list_all is_Fin h"
    and img: "\<not> mat_empty img"
  shows "\<exists>res st'. process env st image_id img 1 {} = Inr (res, st') \<and> res \<noteq> Some [2] \<and>
           (res = None \<or> (\<exists>k. res = Some [k] \<and> (k = 1 \<or> k = 3) \<and> k \<noteq> image_id))"
proof -
  obtain res st' where run: "process env st image_id img 1 {} = Inr (res, st')"
    using process_returns[OF same] by blast
  have wf: "wf_map (hashes_table st)" by (simp add: wf_map_def keys)
  have "res = None \<or> (\<exists>k. res = Some [k] \<and> (k = 1 \<or> k = 3) \<and> k \<noteq> image_id)"
  proof (cases res)
    case None
    then show ?thesis by simp
  next
    case (Some cs)
    with run have runs: "process env st image_id img 1 {} = Inr (Some cs, st')" by simp
    from process_Some[OF runs] same
    have tab: "hashes_table st' = map_assign image_id h (hashes_table st)" and ne: "cs \<noteq> []"
      by auto
    have "length cs \<le> 1"
      using candidates_sorted_length[OF runs wf] by simp
    with ne obtain k where cs: "cs = [k]"
      by (cases cs) auto
    from candidates_stored[OF runs wf, of k] cs obtain g where
      g: "map_of (hashes_table st') k = Some g" "\<not> fle (calcSimilarity h g) (Fin 0)"
      by (auto simp: tab map_of_map_assign_same)
    from g(2) calcSimilarity_self[OF fin] have gh: "g \<noteq> h" by auto
    have k2: "k \<noteq> 2 \<and> k \<noteq> image_id"
      using g(1) gh stored
      by (cases "image_id = 2") (auto simp: tab map_of_map_assign_same map_of_map_assign_other)
    from g(1) have "k \<in> fst ` set (hashes_table st')"
      by (meson domI domIff map_of_eq_None_iff)
    then have "k \<in> insert image_id {1, 2, 3}"
      using keys keys_map_assign[of image_id h "hashes_table st"]
      by (metis tab list.set(1) list.set(2) set_map insert_commute)
    with k2 cs Some show ?thesis by auto
  qed
  with run show ?thesis by auto
qed

theorem process_identical_descriptors_witness:
  "map fst (hashes_table (haloc_store table_123)) = [1, 2, 3] \<and>
   map_of (hashes_table (haloc_store table_123)) 2 = Some [Fin 2] \<and>
   calcHash env_b (hash_obj (haloc_store table_123)) (calcDesc env_b (img_px 3))
     = Inr ([Fin 2], hash_state_b 1) \<and>
   list_all is_Fin [Fin 2] \<and> \<not> mat_empty (img_px 3) \<and>
   (\<exists>res st'. process env_b (haloc_store table_123) 4 (img_px 3) 1 {} = Inr (res, st') \<and>
      res \<noteq> Some [2])"
proof -
  have a: "map fst (hashes_table (haloc_store table_123)) = [1, 2, 3]"
    by (simp add: haloc_store_def table_123_def)
  have b: "map_of (hashes_table (haloc_store table_123)) 2 = Some [Fin 2]"
    by (simp add: haloc_store_def table_123_def)
  have c: "calcHash env_b (hash_obj (haloc_store table_123)) (calcDesc env_b (img_px 3))
     = Inr ([Fin 2], hash_state_b 1)"
    by (simp add: haloc_store_def calcHash_px)
  have d: "list_all is_Fin [Fin 2]" by simp
  have e: "\<not> mat_empty (img_px 3)" by (rule img_px_not_empty)
  from process_identical_descriptors[OF a b c d e, of 4] a b c d e show ?thesis
    by blast
qed

text \<open>
  C8. When two calls of \<^verbatim>\<open>process\<close> with the same id both reach the assignment to the
  table (the image is not empty and the hash is not empty), the second call leaves the
  number of entries and the keys as the first call left them: the entry of the id now
  holds the second hash, and the entries of the other ids are unchanged.
\<close>

theorem process_same_id_overwrites:
  assumes "\<not> mat_empty img1"
    and "calcHash env1 (hash_obj st) (calcDesc env1 img1) = Inr (h1, hs1)" and "h1 \<noteq> []"
    and "process env1 st image_id img1 nc1 ign1 = Inr (res1, st1)"
    and "\<not> mat_empty img2"
    and "calcHash env2 (hash_obj st1) (calcDesc env2 img2) = Inr (h2, hs2)" and "h2 \<noteq> []"
    and "process env2 st1 image_id img2 nc2 ign2 = Inr (res2, st2)"
  shows "length (hashes_table st2) = length (hashes_table st1) \<and>
         map fst (hashes_table st2) = map fst (hashes_table st1) \<and>
         map_of (hashes_table st2) image_id = Some h2 \<and>
         (\<forall>k. k \<noteq> image_id \<longrightarrow> map_of (hashes_table st2) k = map_of (hashes_table st1) k)"
proof -
  from process_stored[OF assms(1-4)]
  have t1: "hashes_table st1 = map_assign image_id h1 (hashes_table st)" by simp
  from process_stored[OF assms(5-8)]
  have t2: "hashes_table st2 = map_assign image_id h2 (hashes_table st1)" by simp
  have keys: "map fst (hashes_table st2) = map fst (hashes_table st1)"
    unfolding t2 t1 by (rule map_assign_keys_twice)
  then have "length (map fst (hashes_table st2)) = length (map fst (hashes_table st1))"
    by simp
  then have "length (hashes_table st2) = length (hashes_table st1)" by simp
  with keys show ?thesis
    by (simp add: t2 map_of_map_assign_same map_of_map_assign_other)
qed

theorem process_same_id_overwrites_witness:
  "\<not> mat_empty (img_px 3) \<and> \<not> mat_empty (img_px 7) \<and>
   process env_b (haloc_store table_123) 4 (img_px 3) 1 {}
     = Inr (Some [1], haloc_store (table_123 @ [(4, [Fin 2])])) \<and>
   process env_b (haloc_store (table_123 @ [(4, [Fin 2])])) 4 (img_px 7) 1 {}
     = Inr (Some [2], haloc_store (table_123 @ [(4, [Fin 4])])) \<and>
   length (hashes_table (haloc_store (table_123 @ [(4, [Fin 4])])))
     = length (hashes_table (haloc_store (table_123 @ [(4, [Fin 2])]))) \<and>
   map_of (hashes_table (haloc_store (table_123 @ [(4, [Fin 4])]))) 4 = Some [Fin 4]"
proof -
  have a: "\<not> mat_empty (img_px 3)" and b: "\<not> mat_empty (img_px 7)"
    by (rule img_px_not_empty)+
  have c: "calcHash env_b (hash_obj (haloc_store table_123)) (calcDesc env_b (img_px 3))
     = Inr ([Fin 2], hash_state_b 1)"
    by (simp add: haloc_store_def calcHash_px)
  have d: "calcHash env_b (hash_obj (haloc_store (table_123 @ [(4, [Fin 2])])))
       (calcDesc env_b (img_px 7)) = Inr ([Fin 4], hash_state_b 1)"
    by (simp add: haloc_store_def calcHash_px)
  from process_same_id_overwrites[OF a c _ process_fourth b d _ process_fourth_again]
    a b process_fourth process_fourth_again
  show ?thesis by simp
qed

text \<open>
  C9. \<^verbatim>\<open>process\<close> never returns a present but empty list: no call has the result
  \<open>Some []\<close>, whatever the state after the call.
\<close>

theorem process_never_empty_list:
  "process env st image_id img nc ign \<noteq> Inr (Some [], st')"
  by (auto simp: process_def Let_def split: sum.splits prod.splits)

text \<open>
  C10, as stated: the list never contains the id of the new image. This fails when the
  new hash has an entry that is not finite: the similarity of the hash to itself is
  then NaN, and NaN passes the test \<^verbatim>\<open>similarity <= 0.0\<close>. With \<^verbatim>\<open>max_desc = 0\<close> no row
  is retained, the first entry of the hash is \<open>0 / 0\<close>, and the first call on the empty
  store returns the id of its own image.
\<close>

theorem process_excludes_own_id_counterexample:
  "process env_b (Haloc 1 0) 1 (img_px 3) 1 {} = Inr (Some [1], haloc_nan [(1, [NaN])]) \<and>
   (1 :: uint) \<in> set [1] \<and>
   similarity_to (haloc_nan [(1, [NaN])]) 1 1 = NaN"
  by (simp add: process_nan_first)
     (simp add: similarity_to_def haloc_nan_def calcSimilarity_def fsub_def upt_conv_Cons)

text \<open>
  C10, amended. When the entries of the new hash are finite, the list never contains
  the id of the new image: the hash is in the table before the similarities are
  computed, the loop compares it with itself, the similarity is 0, and the test
  \<^verbatim>\<open>similarity <= 0.0\<close> drops it.
\<close>

theorem process_excludes_own_id:
  assumes run: "process env st image_id img nc ign = Inr (Some cs, st')"
    and wf: "wf_map (hashes_table st)"
    and own: "map_of (hashes_table st') image_id = Some hash" and fin: "list_all is_Fin hash"
  shows "image_id \<notin> set cs \<and> similarity_to st' image_id image_id = Fin 0"
proof
  show "image_id \<notin> set cs"
  proof
    assume "image_id \<in> set cs"
    from candidates_stored[OF run wf this] own
    have "\<not> fle (calcSimilarity hash hash) (Fin 0)" by auto
    with calcSimilarity_self[OF fin] show False by simp
  qed
  show "similarity_to st' image_id image_id = Fin 0"
    using own calcSimilarity_self[OF fin] by (simp add: similarity_to_def)
qed

theorem process_excludes_own_id_witness:
  "process env_b (haloc_store table_123) 4 (img_px 3) 2 {}
     = Inr (Some [1, 3], haloc_store (table_123 @ [(4, [Fin 2])])) \<and>
   wf_map (hashes_table (haloc_store table_123)) \<and>
   map_of (hashes_table (haloc_store (table_123 @ [(4, [Fin 2])]))) 4 = Some [Fin 2] \<and>
   list_all is_Fin [Fin 2] \<and> 4 \<notin> set [1, 3 :: uint]"
proof -
  have a: "map_of (hashes_table (haloc_store (table_123 @ [(4, [Fin 2])]))) 4 = Some [Fin 2]"
    by (simp add: haloc_store_def table_123_def)
  have b: "list_all is_Fin [Fin 2]" by simp
  from process_excludes_own_id[OF process_fourth_two wf_table_123 a b]
    process_fourth_two wf_table_123 a b
  show ?thesis by simp
qed

end
